theory Spec2Isabelle
  imports Main
begin

section \<open>JavaScript values\<close>

text \<open>
  The payloads of the protocol are untyped (\<^verbatim>\<open>any\<close>) JavaScript values that come out
  of \<^verbatim>\<open>JSON.parse\<close>.  Numbers are restricted to integers; a thrown \<^verbatim>\<open>Error\<close> object
  is the object of its properties (\<^verbatim>\<open>message\<close>, \<^verbatim>\<open>response\<close>).  JavaScript strings
  are modelled as HOL strings.
\<close>

datatype jsval =
    Undefined
  | Null
  | JBool bool
  | JNum int
  | JStr string
  | JArr "jsval list"
  | JObj "(string \<times> jsval) list"

text \<open>Truthiness, as used by \<^verbatim>\<open>&&\<close>, \<^verbatim>\<open>||\<close>, \<^verbatim>\<open>!\<close> and \<^verbatim>\<open>if\<close>.\<close>

fun truthy :: "jsval \<Rightarrow> bool" where
  "truthy Undefined = False"
| "truthy Null = False"
| "truthy (JBool b) = b"
| "truthy (JNum n) = (n \<noteq> 0)"
| "truthy (JStr s) = (s \<noteq> [])"
| "truthy (JArr xs) = True"
| "truthy (JObj kvs) = True"

text \<open>
  Property read \<^verbatim>\<open>v.k\<close>.  Reading a property of \<^verbatim>\<open>undefined\<close> or \<^verbatim>\<open>null\<close> throws a
  \<^verbatim>\<open>TypeError\<close>: the result is \<open>None\<close>.  The source reads only the properties
  \<^verbatim>\<open>id\<close>, \<^verbatim>\<open>params\<close>, \<^verbatim>\<open>name\<close>, \<^verbatim>\<open>arguments\<close>, \<^verbatim>\<open>namespace\<close>, \<^verbatim>\<open>labelSelector\<close>,
  \<^verbatim>\<open>message\<close>, \<^verbatim>\<open>response\<close> and \<^verbatim>\<open>statusCode\<close>, none of which a boolean, a number, a
  string or an array has.
\<close>

fun getProp :: "jsval \<Rightarrow> string \<Rightarrow> jsval option" where
  "getProp Undefined k = None"
| "getProp Null k = None"
| "getProp (JObj kvs) k = (case map_of kvs k of Some v \<Rightarrow> Some v | None \<Rightarrow> Some Undefined)"
| "getProp v k = Some Undefined"

text \<open>\<^verbatim>\<open>a || b\<close> on values.\<close>

definition orElse :: "jsval \<Rightarrow> jsval \<Rightarrow> jsval" where
  "orElse a b = (if truthy a then a else b)"

text \<open>
  String conversion, as performed by a template literal \<^verbatim>\<open>`${v}`\<close>.  It is exact for
  strings, booleans, \<^verbatim>\<open>null\<close>, \<^verbatim>\<open>undefined\<close> and integers below \<open>10\<^sup>2\<^sup>1\<close> in absolute
  value; larger numbers are printed by JavaScript with an exponent, and an object or
  array with a member \<^verbatim>\<open>toString\<close> or \<^verbatim>\<open>valueOf\<close> of its own is converted differently
  or not at all.  The statements below that fix a text do so for strings.
\<close>

function showNat :: "nat \<Rightarrow> string" where
  "showNat n =
     (if n < 10 then [''0123456789'' ! n]
      else showNat (n div 10) @ [''0123456789'' ! (n mod 10)])"
  by pat_completeness auto
termination
  by (relation "measure id") auto

definition joinComma :: "string list \<Rightarrow> string" where
  "joinComma xs = (case xs of [] \<Rightarrow> [] | y # ys \<Rightarrow> y @ concat (map (\<lambda>z. '','' @ z) ys))"

fun jsToString :: "jsval \<Rightarrow> string" where
  "jsToString Undefined = ''undefined''"
| "jsToString Null = ''null''"
| "jsToString (JBool b) = (if b then ''true'' else ''false'')"
| "jsToString (JNum i) = (if i < 0 then ''-'' @ showNat (nat (- i)) else showNat (nat i))"
| "jsToString (JStr s) = s"
| "jsToString (JArr xs) =
     joinComma (map (\<lambda>x. if x = Undefined \<or> x = Null then [] else jsToString x) xs)"
| "jsToString (JObj kvs) = ''[object Object]''"

text \<open>\<^verbatim>\<open>new Error(msg)\<close>, and the \<^verbatim>\<open>TypeError\<close> of reading property \<open>k\<close> of a nullish value.\<close>

definition newError :: "string \<Rightarrow> jsval" where
  "newError msg = JObj [(''message'', JStr msg)]"

definition typeError :: "jsval \<Rightarrow> string \<Rightarrow> jsval" where
  "typeError v k =
     newError (''Cannot read properties of '' @ jsToString v @ '' (reading '' @
               [CHR 0x27] @ k @ [CHR 0x27] @ '')'')"

section \<open>The test client: \<^verbatim>\<open>tests/helpers/mcp_client.ts\<close>\<close>

subsection \<open>Bytes and text of the worker's output\<close>

text \<open>
  A chunk of the worker's output is a sequence of bytes, and a HOL character is a byte.
  The text that the client makes of the output (the decoded chunks, \<^verbatim>\<open>outputBuffer\<close>,
  its segments) is represented by its UTF-8 encoding.  \<^verbatim>\<open>Buffer.toString()\<close> decodes one
  chunk on its own as UTF-8: a well-formed character is kept, and every malformed or
  unfinished sequence becomes U+FFFD, whose encoding is \<open>replacement\<close>.  The decoder
  below is the UTF-8 decoder of the Encoding Standard: \<open>pend\<close> holds the bytes of the
  character being read, \<open>n\<close> the number of bytes it still needs; a byte that cannot
  continue the character ends it with U+FFFD and is read again.
\<close>

definition byte :: "char \<Rightarrow> nat" where
  "byte c = of_char c"

definition replacement :: string where
  "replacement = [CHR 0xEF, CHR 0xBF, CHR 0xBD]"

definition needed :: "char \<Rightarrow> nat" where
  "needed b =
     (if 0xC2 \<le> byte b \<and> byte b \<le> 0xDF then 1
      else if 0xE0 \<le> byte b \<and> byte b \<le> 0xEF then 2
      else if 0xF0 \<le> byte b \<and> byte b \<le> 0xF4 then 3
      else 0)"

definition lowerBound :: "string \<Rightarrow> nat" where
  "lowerBound pend =
     (if pend = [CHR 0xE0] then 0xA0 else if pend = [CHR 0xF0] then 0x90 else 0x80)"

definition upperBound :: "string \<Rightarrow> nat" where
  "upperBound pend =
     (if pend = [CHR 0xED] then 0x9F else if pend = [CHR 0xF4] then 0x8F else 0xBF)"

function decodeFrom :: "string \<Rightarrow> nat \<Rightarrow> string \<Rightarrow> string" where
  "decodeFrom pend n [] = (if n = 0 then [] else replacement)"
| "decodeFrom pend n (b # bs) =
     (if n = 0 then
        (if byte b < 0x80 then b # decodeFrom [] 0 bs
         else if needed b = 0 then replacement @ decodeFrom [] 0 bs
         else decodeFrom [b] (needed b) bs)
      else if lowerBound pend \<le> byte b \<and> byte b \<le> upperBound pend then
        (if n = 1 then pend @ [b] @ decodeFrom [] 0 bs
         else decodeFrom (pend @ [b]) (n - 1) bs)
      else replacement @ decodeFrom [] 0 (b # bs))"
  by pat_completeness auto
termination
  by (relation "measure (\<lambda>(pend, n, inp). 2 * length inp + (if n = 0 then 0 else 1))")
     auto

definition toStringUtf8 :: "string \<Rightarrow> string" where
  "toStringUtf8 data = decodeFrom [] 0 data"

subsection \<open>String primitives\<close>

definition newline :: char where
  "newline = CHR 0x0A"

text \<open>\<^verbatim>\<open>s.split("\n")\<close>: never empty; the last element is the text after the last newline.\<close>

fun splitNL :: "string \<Rightarrow> string list" where
  "splitNL [] = [[]]"
| "splitNL (c # cs) =
     (if c = newline then [] # splitNL cs
      else (case splitNL cs of l # ls \<Rightarrow> (c # l) # ls | [] \<Rightarrow> [[c]]))"

definition startsWith :: "string \<Rightarrow> string \<Rightarrow> bool" where
  "startsWith s p = (take (length p) s = p)"

definition endsWith :: "string \<Rightarrow> string \<Rightarrow> bool" where
  "endsWith s p = (length p \<le> length s \<and> drop (length s - length p) s = p)"

text \<open>
  \<^verbatim>\<open>s.trim()\<close>: strips white space and line terminators at both ends.  These are TAB,
  LF, VT, FF, CR and SPACE, one byte each, and in \<open>wideSpaces\<close> the encodings of U+00A0,
  U+1680, U+2000 to U+200A, U+2028, U+2029, U+202F, U+205F, U+3000 and U+FEFF.
\<close>

definition asciiSpace :: "char \<Rightarrow> bool" where
  "asciiSpace c = (c \<in> {CHR 0x09, CHR 0x0A, CHR 0x0B, CHR 0x0C, CHR 0x0D, CHR 0x20})"

definition wideSpaces :: "string list" where
  "wideSpaces =
     [[CHR 0xC2, CHR 0xA0], [CHR 0xE1, CHR 0x9A, CHR 0x80],
      [CHR 0xE2, CHR 0x80, CHR 0x80], [CHR 0xE2, CHR 0x80, CHR 0x81],
      [CHR 0xE2, CHR 0x80, CHR 0x82], [CHR 0xE2, CHR 0x80, CHR 0x83],
      [CHR 0xE2, CHR 0x80, CHR 0x84], [CHR 0xE2, CHR 0x80, CHR 0x85],
      [CHR 0xE2, CHR 0x80, CHR 0x86], [CHR 0xE2, CHR 0x80, CHR 0x87],
      [CHR 0xE2, CHR 0x80, CHR 0x88], [CHR 0xE2, CHR 0x80, CHR 0x89],
      [CHR 0xE2, CHR 0x80, CHR 0x8A], [CHR 0xE2, CHR 0x80, CHR 0xA8],
      [CHR 0xE2, CHR 0x80, CHR 0xA9], [CHR 0xE2, CHR 0x80, CHR 0xAF],
      [CHR 0xE2, CHR 0x81, CHR 0x9F], [CHR 0xE3, CHR 0x80, CHR 0x80],
      [CHR 0xEF, CHR 0xBB, CHR 0xBF]]"

text \<open>The number of bytes of the white space character at the start, at the end.\<close>

definition leadingSpace :: "string \<Rightarrow> nat" where
  "leadingSpace s =
     (case s of
        [] \<Rightarrow> 0
      | c # _ \<Rightarrow>
          if asciiSpace c then 1
          else (case find (startsWith s) wideSpaces of Some w \<Rightarrow> length w | None \<Rightarrow> 0))"

definition trailingSpace :: "string \<Rightarrow> nat" where
  "trailingSpace s =
     (case rev s of
        [] \<Rightarrow> 0
      | c # _ \<Rightarrow>
          if asciiSpace c then 1
          else (case find (endsWith s) wideSpaces of Some w \<Rightarrow> length w | None \<Rightarrow> 0))"

function trimStart :: "string \<Rightarrow> string" where
  "trimStart s = (if leadingSpace s = 0 then s else trimStart (drop (leadingSpace s) s))"
  by pat_completeness auto
termination
  by (relation "measure length") (auto simp: leadingSpace_def split: list.splits)

function trimEnd :: "string \<Rightarrow> string" where
  "trimEnd s = (if trailingSpace s = 0 then s else trimEnd (take (length s - trailingSpace s) s))"
  by pat_completeness auto
termination
  by (relation "measure length") (auto simp: trailingSpace_def split: list.splits)

definition trim :: "string \<Rightarrow> string" where
  "trim s = trimEnd (trimStart s)"

fun includesText :: "string \<Rightarrow> string \<Rightarrow> bool" where
  "includesText [] p = (p = [])"
| "includesText (c # cs) p = (startsWith (c # cs) p \<or> includesText cs p)"

definition readyText :: string where
  "readyText = ''Ready to receive MCP requests''"

subsection \<open>State\<close>

datatype error =
    ServerNotReady
  | RequestTimedOut string
  | ServerStartTimeout
  | SpawnError

datatype promise = Pending | Resolved jsval | Rejected error

text \<open>A promise settles once: \<^verbatim>\<open>resolve\<close> and \<^verbatim>\<open>reject\<close> on a settled promise do nothing.\<close>

definition settle :: "promise \<Rightarrow> promise \<Rightarrow> promise" where
  "settle new old = (if old = Pending then new else old)"

text \<open>
  Every \<^verbatim>\<open>sendRequest\<close> that passes its guard creates one closure environment: the
  allocated \<^verbatim>\<open>id\<close>, the \<^verbatim>\<open>method\<close>, the timer \<^verbatim>\<open>timeout\<close> (armed or not) and the
  promise behind \<^verbatim>\<open>resolve\<close>/\<^verbatim>\<open>reject\<close>.  The function stored in \<^verbatim>\<open>responseHandlers\<close>
  is represented by the index of the environment it closes over.
\<close>

record call =
  c_id :: int
  c_method :: string
  c_timer :: bool
  c_promise :: promise

record request =
  r_id :: int
  r_method :: string
  r_params :: jsval

text \<open>
  The fields of \<^verbatim>\<open>MCPTestClient\<close> (\<open>server\<close> is \<^verbatim>\<open>this.server !== null\<close>), the timer
  and the promise of \<^verbatim>\<open>start()\<close>, the closure environments, and two histories:
  \<open>written\<close>, the requests written to the worker's input, and \<open>emitted\<close>, the
  segments that \<^verbatim>\<open>processOutputBuffer\<close> decoded as messages.
\<close>

record client =
  server :: bool
  requestId :: int
  responseHandlers :: "int \<rightharpoonup> nat"
  serverReady :: bool
  outputBuffer :: string
  startTimer :: bool
  startPromise :: promise
  calls :: "call list"
  written :: "request list"
  emitted :: "string list"

definition init :: client where
  "init = \<lparr> server = False, requestId = 0, responseHandlers = Map.empty,
            serverReady = False, outputBuffer = [], startTimer = False,
            startPromise = Pending, calls = [], written = [], emitted = [] \<rparr>"

subsection \<open>\<^verbatim>\<open>processOutputBuffer\<close>\<close>

text \<open>
  Lines 73 to 76: trim the segment, test the braces, \<^verbatim>\<open>JSON.parse\<close>.  The parser is
  a parameter; \<open>None\<close> is the exception that the \<^verbatim>\<open>catch\<close> swallows.
\<close>

definition decode :: "(string \<Rightarrow> jsval option) \<Rightarrow> string \<Rightarrow> jsval option" where
  "decode parse seg =
     (let line = trim seg
      in if startsWith line ''{'' \<and> endsWith line ''}'' then parse line else None)"

text \<open>The body of a stored handler: \<^verbatim>\<open>clearTimeout(timeout); resolve(response)\<close>.\<close>

definition fire :: "nat \<Rightarrow> jsval \<Rightarrow> call list \<Rightarrow> call list" where
  "fire c response cs =
     (if c < length cs
      then cs[c := (cs ! c)\<lparr> c_timer := False,
                              c_promise := settle (Resolved response) (c_promise (cs ! c)) \<rparr>]
      else cs)"

text \<open>\<^verbatim>\<open>this.responseHandlers.has(id)\<close> / \<^verbatim>\<open>get(id)\<close>: the keys are numbers.\<close>

definition handlerFor :: "client \<Rightarrow> jsval \<Rightarrow> (int \<times> nat) option" where
  "handlerFor s rid =
     (case rid of
        JNum k \<Rightarrow> (case responseHandlers s k of Some c \<Rightarrow> Some (k, c) | None \<Rightarrow> None)
      | _ \<Rightarrow> None)"

text \<open>
  Lines 77 to 81, for a decoded \<open>response\<close>.  A \<^verbatim>\<open>TypeError\<close> of \<^verbatim>\<open>response.id\<close> would be
  swallowed by the \<^verbatim>\<open>catch\<close>.
\<close>

definition dispatch :: "jsval \<Rightarrow> client \<Rightarrow> client" where
  "dispatch response s =
     (case getProp response ''id'' of
        None \<Rightarrow> s
      | Some rid \<Rightarrow>
          if truthy rid then
            (case handlerFor s rid of
               Some (k, c) \<Rightarrow>
                 s\<lparr> responseHandlers := (responseHandlers s)(k := None),
                    calls := fire c response (calls s) \<rparr>
             | None \<Rightarrow> s)
          else s)"

definition handleSegment :: "(string \<Rightarrow> jsval option) \<Rightarrow> string \<Rightarrow> client \<Rightarrow> client" where
  "handleSegment parse seg s =
     (case decode parse seg of
        None \<Rightarrow> s
      | Some response \<Rightarrow> dispatch response (s\<lparr> emitted := emitted s @ [seg] \<rparr>))"

definition processOutputBuffer :: "(string \<Rightarrow> jsval option) \<Rightarrow> client \<Rightarrow> client" where
  "processOutputBuffer parse s =
     (let lines = splitNL (outputBuffer s)
      in fold (handleSegment parse) (butlast lines) (s\<lparr> outputBuffer := last lines \<rparr>))"

subsection \<open>\<^verbatim>\<open>start\<close>, the \<^verbatim>\<open>data\<close> listener, \<^verbatim>\<open>sendRequest\<close>, timers and \<^verbatim>\<open>cleanup\<close>\<close>

text \<open>
  The synchronous part of \<^verbatim>\<open>cleanup()\<close>; what follows it in the source is a wait that
  touches no field.
\<close>

definition cleanup :: "client \<Rightarrow> client" where
  "cleanup s =
     (if server s
      then s\<lparr> server := False, serverReady := False, responseHandlers := Map.empty \<rparr>
      else s)"

text \<open>\<^verbatim>\<open>start()\<close>: spawn the worker, arm the start timer, install the listeners.\<close>

definition start :: "client \<Rightarrow> client" where
  "start s = s\<lparr> server := True, startTimer := True, startPromise := Pending \<rparr>"

text \<open>
  The \<^verbatim>\<open>stdout\<close> listener from line 40 on, for the text \<open>output\<close> of one chunk; and
  the whole listener \<open>onBytes\<close>, for the chunk \<open>data\<close> as the stream delivers it
  (\<^verbatim>\<open>const output = data.toString()\<close>).
\<close>

definition onData :: "(string \<Rightarrow> jsval option) \<Rightarrow> string \<Rightarrow> client \<Rightarrow> client" where
  "onData parse output s =
     (let s1 = s\<lparr> outputBuffer := outputBuffer s @ output \<rparr>;
          s2 = (if includesText output readyText
                then (let s3 = processOutputBuffer parse
                                 (s1\<lparr> serverReady := True, startTimer := False \<rparr>)
                      in s3\<lparr> startPromise := settle (Resolved Undefined) (startPromise s3) \<rparr>)
                else s1)
      in processOutputBuffer parse s2)"

definition onBytes :: "(string \<Rightarrow> jsval option) \<Rightarrow> string \<Rightarrow> client \<Rightarrow> client" where
  "onBytes parse data s = onData parse (toStringUtf8 data) s"

text \<open>The start timer's callback, when the timer is still armed.\<close>

definition onStartTimeout :: "client \<Rightarrow> client" where
  "onStartTimeout s =
     (if startTimer s
      then (let s1 = cleanup (s\<lparr> startTimer := False \<rparr>)
            in s1\<lparr> startPromise := settle (Rejected ServerStartTimeout) (startPromise s1) \<rparr>)
      else s)"

text \<open>The listener of the process's \<^verbatim>\<open>error\<close> event.\<close>

definition onSpawnError :: "client \<Rightarrow> client" where
  "onSpawnError s =
     s\<lparr> startTimer := False, startPromise := settle (Rejected SpawnError) (startPromise s) \<rparr>"

text \<open>
  \<^verbatim>\<open>sendRequest\<close>: \<open>Inl\<close> is the rejection thrown by the guard, \<open>Inr c\<close> the promise of
  the new closure environment \<open>c\<close>.
\<close>

definition sendRequest :: "string \<Rightarrow> jsval \<Rightarrow> client \<Rightarrow> (error + nat) \<times> client" where
  "sendRequest method params s =
     (if \<not> serverReady s \<or> \<not> server s then (Inl ServerNotReady, s)
      else
        (let ident = requestId s + 1;
             c = length (calls s)
         in (Inr c,
             s\<lparr> requestId := ident,
                calls := calls s @ [\<lparr> c_id = ident, c_method = method,
                                      c_timer = True, c_promise = Pending \<rparr>],
                responseHandlers := (responseHandlers s)(ident \<mapsto> c),
                written := written s @ [\<lparr> r_id = ident, r_method = method,
                                          r_params = params \<rparr>] \<rparr>)))"

text \<open>The callback of the response timer of environment \<open>c\<close>, when still armed.\<close>

definition onTimeout :: "nat \<Rightarrow> client \<Rightarrow> client" where
  "onTimeout c s =
     (if c < length (calls s) \<and> c_timer (calls s ! c)
      then (let e = calls s ! c
            in s\<lparr> responseHandlers := (responseHandlers s)(c_id e := None),
                  calls := (calls s)[c := e\<lparr> c_timer := False,
                               c_promise := settle (Rejected (RequestTimedOut (c_method e)))
                                              (c_promise e) \<rparr>] \<rparr>)
      else s)"

subsection \<open>Runs of the client\<close>

datatype event =
    Data string
  | Send string jsval
  | Timeout nat
  | StartTimeout
  | SpawnFailed
  | Cleanup

fun step :: "(string \<Rightarrow> jsval option) \<Rightarrow> event \<Rightarrow> client \<Rightarrow> client" where
  "step parse (Data output) s = onData parse output s"
| "step parse (Send method params) s = snd (sendRequest method params s)"
| "step parse (Timeout c) s = onTimeout c s"
| "step parse StartTimeout s = onStartTimeout s"
| "step parse SpawnFailed s = onSpawnError s"
| "step parse Cleanup s = cleanup s"

definition run :: "(string \<Rightarrow> jsval option) \<Rightarrow> event list \<Rightarrow> client \<Rightarrow> client" where
  "run parse evs s = fold (step parse) evs s"

subsection \<open>A sample parser\<close>

text \<open>
  \<^verbatim>\<open>JSON.parse\<close> on the three frames used in the examples below, the objects with
  the single member \<^verbatim>\<open>id\<close> equal to 1, 2 or 3, and an exception on any other text.
\<close>

definition dq :: char where
  "dq = CHR 0x22"

definition idFrame :: "nat \<Rightarrow> string" where
  "idFrame n = ''{'' @ [dq] @ ''id'' @ [dq] @ '':'' @ showNat n @ ''}''"

definition sampleParse :: "string \<Rightarrow> jsval option" where
  "sampleParse line =
     (if line = idFrame 1 then Some (JObj [(''id'', JNum 1)])
      else if line = idFrame 2 then Some (JObj [(''id'', JNum 2)])
      else if line = idFrame 3 then Some (JObj [(''id'', JNum 3)])
      else None)"

text \<open>
  The text of frame 1, of frame 2 after a space, and of an unterminated segment, cut
  inside frame 1, with an empty chunk, two newlines in one chunk and the segment in
  two pieces.
\<close>

definition sampleChunks :: "string list" where
  "sampleChunks =
     [take 3 (idFrame 1), [],
      drop 3 (idFrame 1) @ [newline] @ '' '' @ idFrame 2 @ [newline] @ ''{p'', ''ar'']"

text \<open>
  A frame whose payload holds the character U+00E9 (two bytes); the two chunks that
  the stream makes of it when it cuts between these bytes; the segment the client then
  builds; and \<^verbatim>\<open>JSON.parse\<close> on the frame and on that segment.
\<close>

definition accentFrame :: string where
  "accentFrame =
     ''{'' @ [dq] @ ''id'' @ [dq] @ '':1,'' @ [dq] @ ''result'' @ [dq] @ '':'' @ [dq] @
     ''caf'' @ [CHR 0xC3, CHR 0xA9] @ [dq] @ ''}''"

definition garbledFrame :: string where
  "garbledFrame =
     ''{'' @ [dq] @ ''id'' @ [dq] @ '':1,'' @ [dq] @ ''result'' @ [dq] @ '':'' @ [dq] @
     ''caf'' @ replacement @ replacement @ [dq] @ ''}''"

definition accentChunks :: "string list" where
  "accentChunks =
     [''{'' @ [dq] @ ''id'' @ [dq] @ '':1,'' @ [dq] @ ''result'' @ [dq] @ '':'' @ [dq] @
      ''caf'' @ [CHR 0xC3],
      [CHR 0xA9] @ [dq] @ ''}'' @ [newline]]"

definition accentParse :: "string \<Rightarrow> jsval option" where
  "accentParse line =
     (if line = accentFrame
      then Some (JObj [(''id'', JNum 1), (''result'', JStr (''caf'' @ [CHR 0xC3, CHR 0xA9]))])
      else if line = garbledFrame
      then Some (JObj [(''id'', JNum 1),
                       (''result'', JStr (''caf'' @ replacement @ replacement))])
      else None)"

subsection \<open>Invariant of the correlation table\<close>

text \<open>
  The identifier counter equals the number of closure environments; environment \<open>c\<close>
  holds the identifier \<open>c + 1\<close>, its timer is armed exactly while its promise is
  pending, and a resolved promise holds a response with the environment's identifier;
  a registered handler is stored under its environment's identifier and its promise is
  pending; the requests written carry the identifiers 1, 2, ... in order.
\<close>

definition inv :: "client \<Rightarrow> bool" where
  "inv s \<longleftrightarrow>
     requestId s = int (length (calls s)) \<and>
     (\<forall>c < length (calls s).
        c_id (calls s ! c) = int c + 1 \<and>
        (c_timer (calls s ! c) \<longleftrightarrow> c_promise (calls s ! c) = Pending) \<and>
        (\<forall>r. c_promise (calls s ! c) = Resolved r \<longrightarrow>
             getProp r ''id'' = Some (JNum (int c + 1)))) \<and>
     (\<forall>k c. responseHandlers s k = Some c \<longrightarrow>
        c < length (calls s) \<and> k = int c + 1 \<and> c_promise (calls s ! c) = Pending) \<and>
     map r_id (written s) = map (\<lambda>c. int c + 1) [0 ..< length (calls s)]"

text \<open>Two clients with the same correlation table and closure environments.\<close>

definition tableEq :: "client \<Rightarrow> client \<Rightarrow> bool" where
  "tableEq s t \<longleftrightarrow> responseHandlers s = responseHandlers t \<and> calls s = calls t"

text \<open>The promise of environment \<open>d\<close> is settled with outcome \<open>p\<close>.\<close>

definition settledAt :: "nat \<Rightarrow> promise \<Rightarrow> client \<Rightarrow> bool" where
  "settledAt d p s \<longleftrightarrow> d < length (calls s) \<and> c_promise (calls s ! d) = p \<and> p \<noteq> Pending"

text \<open>Identifier \<open>k\<close> has been allocated and no handler is stored under it.\<close>

definition retired :: "int \<Rightarrow> client \<Rightarrow> bool" where
  "retired k s \<longleftrightarrow> k \<le> requestId s \<and> responseHandlers s k = None"

text \<open>No readiness line seen: nothing written, and \<^verbatim>\<open>start()\<close> pending or rejected.\<close>

definition starting :: "client \<Rightarrow> bool" where
  "starting s \<longleftrightarrow>
     \<not> serverReady s \<and> written s = [] \<and>
     (if startTimer s then startPromise s = Pending
      else startPromise s = Rejected ServerStartTimeout \<or> startPromise s = Rejected SpawnError)"

text \<open>Several \<^verbatim>\<open>sendRequest\<close> calls in a row, none awaited.\<close>

definition sendAll :: "(string \<times> jsval) list \<Rightarrow> client \<Rightarrow> client" where
  "sendAll ms s = fold (\<lambda>(method, params) t. snd (sendRequest method params t)) ms s"

subsection \<open>Sample sessions\<close>

text \<open>
  The worker's readiness line; a started client that has seen it; the same client with
  three requests outstanding; and a response that carries only the identifier \<open>i + 1\<close>.
\<close>

definition readyChunk :: string where
  "readyChunk = readyText @ ''...'' @ [newline]"

definition readySession :: client where
  "readySession = run sampleParse [Data readyChunk] (start init)"

definition sampleSession :: client where
  "sampleSession =
     run sampleParse
       [Data readyChunk, Send ''initialize'' (JObj []), Send ''tools/list'' (JObj []),
        Send ''tools/call'' (JObj [(''name'', JStr ''list-nodes'')])]
       (start init)"

definition sampleResp :: "nat \<Rightarrow> jsval" where
  "sampleResp i = JObj [(''id'', JNum (1 + int i))]"

text \<open>
  Output of the worker after three requests: a log line, the responses to the third
  and to the first request, a line in braces that is not JSON, and the response to the
  second request; and the same output in three chunks, cut inside a response and
  inside the line that is not JSON.
\<close>

definition shuffledLines :: "string list" where
  "shuffledLines =
     [''Kubernetes client initialized'', idFrame 3, idFrame 1, ''{not json}'', idFrame 2]"

definition shuffledChunks :: "string list" where
  "shuffledChunks =
     [''Kubernetes client initialized'' @ [newline] @ take 4 (idFrame 3),
      drop 4 (idFrame 3) @ [newline] @ idFrame 1 @ [newline] @ ''{not'',
      '' json}'' @ [newline] @ idFrame 2 @ [newline]]"

section \<open>The worker: \<^verbatim>\<open>src/server.ts\<close>\<close>

text \<open>
  The cluster client is outside the engine.  For each handler, the body of its
  \<^verbatim>\<open>try\<close> block (the API call and the projection of its answer) is a parameter:
  \<open>Inr v\<close> is the value it computes, \<open>Inl e\<close> the value it throws.
\<close>

record cluster =
  listPods :: "jsval \<Rightarrow> jsval + jsval"
  readPod :: "jsval \<Rightarrow> jsval \<Rightarrow> jsval + jsval"
  listNodes :: "jsval + jsval"

record contentItem =
  item_type :: string
  item_text :: string

text \<open>The value a tool call returns; \<open>isError\<close> is false when the member is absent.\<close>

record toolResult =
  content :: "contentItem list"
  isError :: bool

definition textResult :: "string \<Rightarrow> toolResult" where
  "textResult t = \<lparr> content = [\<lparr> item_type = ''text'', item_text = t \<rparr>], isError = False \<rparr>"

definition errorResult :: "string \<Rightarrow> toolResult" where
  "errorResult t = \<lparr> content = [\<lparr> item_type = ''text'', item_text = t \<rparr>], isError = True \<rparr>"

text \<open>\<^verbatim>\<open>config.kubernetes.namespace\<close>, from the environment variable \<^verbatim>\<open>K8S_NAMESPACE\<close>.\<close>

definition configNamespace :: "string option \<Rightarrow> string" where
  "configNamespace env =
     (case env of Some v \<Rightarrow> if v \<noteq> [] then v else ''default'' | None \<Rightarrow> ''default'')"

text \<open>\<^verbatim>\<open>throw new Error(`<prefix>${error.message}`)\<close> in a \<^verbatim>\<open>catch (error)\<close>.\<close>

definition rethrow :: "string \<Rightarrow> jsval \<Rightarrow> jsval" where
  "rethrow prefix error =
     (case getProp error ''message'' of
        None \<Rightarrow> typeError error ''message''
      | Some m \<Rightarrow> newError (prefix @ jsToString m))"

definition listPodsHandler :: "cluster \<Rightarrow> string \<Rightarrow> jsval \<Rightarrow> jsval + jsval" where
  "listPodsHandler k ns input =
     (case getProp input ''namespace'' of
        None \<Rightarrow> Inl (typeError input ''namespace'')
      | Some n \<Rightarrow>
          (let namespace = orElse n (JStr ns)
           in case listPods k namespace of
                Inr pods \<Rightarrow> Inr pods
              | Inl error \<Rightarrow> Inl (rethrow ''Failed to list pods: '' error)))"

text \<open>\<^verbatim>\<open>error.response?.statusCode === 404\<close>; \<open>None\<close> when reading \<^verbatim>\<open>error.response\<close> throws.\<close>

definition isNotFound :: "jsval \<Rightarrow> bool option" where
  "isNotFound error =
     (case getProp error ''response'' of
        None \<Rightarrow> None
      | Some resp \<Rightarrow>
          (case getProp resp ''statusCode'' of
             None \<Rightarrow> Some False
           | Some code \<Rightarrow> Some (code = JNum 404)))"

definition getPodHandler :: "cluster \<Rightarrow> string \<Rightarrow> jsval \<Rightarrow> jsval + jsval" where
  "getPodHandler k ns input =
     (case getProp input ''name'' of
        None \<Rightarrow> Inl (typeError input ''name'')
      | Some name \<Rightarrow>
          (case getProp input ''namespace'' of
             None \<Rightarrow> Inl (typeError input ''namespace'')
           | Some n \<Rightarrow>
               (let namespace = orElse n (JStr ns)
                in if \<not> truthy name then Inl (newError ''Pod name is required'')
                   else
                     (case readPod k name namespace of
                        Inr pod \<Rightarrow> Inr pod
                      | Inl error \<Rightarrow>
                          (case isNotFound error of
                             None \<Rightarrow> Inl (typeError error ''response'')
                           | Some True \<Rightarrow>
                               Inl (newError (''Pod '' @ [CHR 0x27] @ jsToString name @ [CHR 0x27] @
                                      '' not found in namespace '' @ [CHR 0x27] @
                                      jsToString namespace @ [CHR 0x27]))
                           | Some False \<Rightarrow> Inl (rethrow ''Failed to get pod: '' error))))))"

definition listNodesHandler :: "cluster \<Rightarrow> jsval + jsval" where
  "listNodesHandler k =
     (case listNodes k of
        Inr nodes \<Rightarrow> Inr nodes
      | Inl error \<Rightarrow> Inl (rethrow ''Failed to list nodes: '' error))"

text \<open>\<^verbatim>\<open>args || {}\<close>: what the dispatcher hands to a handler.\<close>

definition handlerInput :: "jsval \<Rightarrow> jsval" where
  "handlerInput args = orElse args (JObj [])"

text \<open>
  The \<^verbatim>\<open>switch (name)\<close> of the \<^verbatim>\<open>tools/call\<close> handler: the outcome of the handler of a
  registered tool, \<open>None\<close> in the \<^verbatim>\<open>default\<close> case.
\<close>

definition switchTool :: "cluster \<Rightarrow> string \<Rightarrow> jsval \<Rightarrow> jsval \<Rightarrow> (jsval + jsval) option" where
  "switchTool k ns name args =
     (if name = JStr ''list-pods'' then Some (listPodsHandler k ns (handlerInput args))
      else if name = JStr ''get-pod'' then Some (getPodHandler k ns (handlerInput args))
      else if name = JStr ''list-nodes'' then Some (listNodesHandler k)
      else None)"

text \<open>
  The \<^verbatim>\<open>tools/call\<close> request handler.  \<open>Inr\<close> is the value it returns, which the
  protocol layer sends as the \<^verbatim>\<open>result\<close> of a response; \<open>Inl\<close> is an exception that
  leaves the handler, which the protocol layer answers with an \<^verbatim>\<open>error\<close> member.
  \<^verbatim>\<open>JSON.stringify\<close> is a parameter (\<open>Inl\<close> when it throws).
\<close>

definition toolsCall ::
  "cluster \<Rightarrow> string \<Rightarrow> (jsval \<Rightarrow> jsval + string) \<Rightarrow> jsval \<Rightarrow> jsval + toolResult" where
  "toolsCall k ns stringify request =
     (case getProp request ''params'' of
        None \<Rightarrow> Inl (typeError request ''params'')
      | Some params \<Rightarrow>
          (case (getProp params ''name'', getProp params ''arguments'') of
             (Some name, Some args) \<Rightarrow>
               (let attempt =
                      (case switchTool k ns name args of
                         Some (Inr v) \<Rightarrow>
                           (case stringify v of
                              Inr t \<Rightarrow> Inr (textResult t)
                            | Inl e \<Rightarrow> Inl e)
                       | Some (Inl e) \<Rightarrow> Inl e
                       | None \<Rightarrow> Inl (newError (''Unknown tool: '' @ jsToString name)))
                in case attempt of
                     Inr res \<Rightarrow> Inr res
                   | Inl error \<Rightarrow>
                       (case getProp error ''message'' of
                          None \<Rightarrow> Inl (typeError error ''message'')
                        | Some m \<Rightarrow> Inr (errorResult (''Error: '' @ jsToString m))))
           | _ \<Rightarrow> Inl (typeError params ''name'')))"

text \<open>
  The \<^verbatim>\<open>list-pods\<close> tool of the second server (registered with \<^verbatim>\<open>server.tool\<close>): its
  callback, on the input that the SDK has validated against the declared shape.
\<close>

definition listPodsTool ::
  "cluster \<Rightarrow> (jsval \<Rightarrow> jsval + string) \<Rightarrow> jsval \<Rightarrow> jsval + toolResult" where
  "listPodsTool k stringify input =
     (case getProp input ''namespace'' of
        None \<Rightarrow> Inl (typeError input ''namespace'')
      | Some namespace \<Rightarrow>
          (let attempt =
                 (case listPods k namespace of
                    Inr pods \<Rightarrow> stringify pods
                  | Inl e \<Rightarrow> Inl e)
           in case attempt of
                Inr t \<Rightarrow> Inr (textResult t)
              | Inl error \<Rightarrow>
                  (case getProp error ''message'' of
                     None \<Rightarrow> Inl (typeError error ''message'')
                   | Some m \<Rightarrow> Inr (errorResult (''Error listing pods: '' @ jsToString m)))))"

text \<open>A \<^verbatim>\<open>tools/call\<close> request for tool \<open>name\<close> with arguments \<open>args\<close>.\<close>

definition callRequest :: "jsval \<Rightarrow> jsval \<Rightarrow> jsval" where
  "callRequest name args = JObj [(''params'', JObj [(''name'', name), (''arguments'', args)])]"

text \<open>
  A cluster in which listing pods succeeds, reading a pod answers 404 and listing
  nodes fails; and a serializer.
\<close>

definition sampleCluster :: cluster where
  "sampleCluster =
     \<lparr> listPods = (\<lambda>namespace. Inr (JObj [(''pods'', JArr [])])),
       readPod = (\<lambda>name namespace.
          Inl (JObj [(''message'', JStr ''HTTP request failed''),
                     (''response'', JObj [(''statusCode'', JNum 404)])])),
       listNodes = Inl (newError ''connect ECONNREFUSED'') \<rparr>"

definition sampleStringify :: "jsval \<Rightarrow> jsval + string" where
  "sampleStringify v = Inr (jsToString v)"



text \<open>
  A cluster that refuses the namespace \<^verbatim>\<open>default\<close> and knows pods in \<^verbatim>\<open>kube-system\<close>
  only; and arguments that name both a namespace and a pod.
\<close>

definition pickyCluster :: cluster where
  "pickyCluster =
     \<lparr> listPods = (\<lambda>namespace.
          if namespace = JStr ''default'' then Inl (newError ''Forbidden'')
          else Inr (JObj [(''pods'', JArr [])])),
       readPod = (\<lambda>name namespace.
          if namespace = JStr ''kube-system'' then Inr (JObj [(''pod'', name)])
          else Inl (newError ''Forbidden'')),
       listNodes = Inr (JObj [(''nodes'', JArr [])]) \<rparr>"

definition podArgs :: jsval where
  "podArgs = JObj [(''namespace'', JStr ''kube-system''), (''name'', JStr ''coredns-1'')]"

section \<open>The frame demultiplexer\<close>

text \<open>
  The recursive equations of the decoder and of \<^verbatim>\<open>trim\<close> are used on concrete texts
  only, where their conditions evaluate.
\<close>

declare decodeFrom.simps [simp del] trimStart.simps [simp del] trimEnd.simps [simp del]

lemmas trim_eval =
  trim_def trimStart.simps trimEnd.simps asciiSpace_def wideSpaces_def leadingSpace_def
  trailingSpace_def startsWith_def endsWith_def

lemmas utf8_eval =
  toStringUtf8_def decodeFrom.simps byte_def needed_def replacement_def lowerBound_def
  upperBound_def


lemma splitNL_nonempty: "splitNL s \<noteq> []"
  by (induction s) (auto split: list.splits)

lemma splitNL_append:
  "splitNL (a @ b) = butlast (splitNL a) @ splitNL (last (splitNL a) @ b)"
proof (induction a)
  case Nil
  show ?case by simp
next
  case (Cons c a)
  show ?case
  proof (cases "c = newline")
    case True
    then show ?thesis using Cons splitNL_nonempty [of a] by simp
  next
    case False
    obtain l ls where sp: "splitNL a = l # ls"
      using splitNL_nonempty [of a] by (cases "splitNL a") auto
    show ?thesis
    proof (cases ls)
      case Nil
      then show ?thesis using False sp Cons by simp
    next
      case (Cons l' ls')
      then show ?thesis using False sp Cons.IH by simp
    qed
  qed
qed

lemma splitNL_no_newline: "newline \<notin> set s \<Longrightarrow> splitNL s = [s]"
  by (induction s) auto

lemma splitNL_terminated:
  "newline \<notin> set l \<Longrightarrow> splitNL (l @ newline # t) = l # splitNL t"
  by (induction l) (auto split: list.splits simp: splitNL_nonempty)

lemma splitNL_frames:
  "\<forall>f \<in> set fs. newline \<notin> set f \<Longrightarrow> newline \<notin> set t \<Longrightarrow>
   splitNL (concat (map (\<lambda>f. f @ [newline]) fs) @ t) = fs @ [t]"
  by (induction fs) (auto simp: splitNL_no_newline splitNL_terminated)

lemma last_splitNL_no_newline: "newline \<notin> set (last (splitNL s))"
  by (induction s) (auto split: list.splits simp: splitNL_nonempty)

lemma dispatch_emitted [simp]: "emitted (dispatch r s) = emitted s"
  by (simp add: dispatch_def split: option.splits prod.splits)

lemma dispatch_outputBuffer [simp]: "outputBuffer (dispatch r s) = outputBuffer s"
  by (simp add: dispatch_def split: option.splits prod.splits)

lemma handleSegment_outputBuffer [simp]:
  "outputBuffer (handleSegment parse seg s) = outputBuffer s"
  by (simp add: handleSegment_def split: option.splits)

lemma handleSegment_emitted:
  "emitted (handleSegment parse seg s) =
     emitted s @ (if decode parse seg = None then [] else [seg])"
  by (simp add: handleSegment_def split: option.splits)

lemma fold_handleSegment_outputBuffer [simp]:
  "outputBuffer (fold (handleSegment parse) segs s) = outputBuffer s"
  by (induction segs arbitrary: s) auto

lemma fold_handleSegment_emitted:
  "emitted (fold (handleSegment parse) segs s) =
     emitted s @ filter (\<lambda>seg. decode parse seg \<noteq> None) segs"
  by (induction segs arbitrary: s) (auto simp: handleSegment_emitted)

lemma processOutputBuffer_outputBuffer:
  "outputBuffer (processOutputBuffer parse s) = last (splitNL (outputBuffer s))"
  by (simp add: processOutputBuffer_def Let_def)

lemma processOutputBuffer_emitted:
  "emitted (processOutputBuffer parse s) =
     emitted s @ filter (\<lambda>seg. decode parse seg \<noteq> None) (butlast (splitNL (outputBuffer s)))"
  by (simp add: processOutputBuffer_def Let_def fold_handleSegment_emitted)

lemma onData_outputBuffer:
  "outputBuffer (onData parse output s) = last (splitNL (outputBuffer s @ output))"
  by (simp add: onData_def Let_def processOutputBuffer_outputBuffer
        splitNL_no_newline last_splitNL_no_newline)

lemma onData_emitted:
  "emitted (onData parse output s) =
     emitted s @ filter (\<lambda>seg. decode parse seg \<noteq> None)
                   (butlast (splitNL (outputBuffer s @ output)))"
  by (simp add: onData_def Let_def processOutputBuffer_outputBuffer processOutputBuffer_emitted
        splitNL_no_newline last_splitNL_no_newline)

lemma feed_chunks:
  "newline \<notin> set (outputBuffer s) \<Longrightarrow>
   outputBuffer (fold (onData parse) cs s) = last (splitNL (outputBuffer s @ concat cs)) \<and>
   emitted (fold (onData parse) cs s) =
     emitted s @ filter (\<lambda>seg. decode parse seg \<noteq> None)
                   (butlast (splitNL (outputBuffer s @ concat cs)))"
proof (induction cs arbitrary: s)
  case Nil
  then show ?case by (simp add: splitNL_no_newline)
next
  case (Cons c cs)
  have nl: "newline \<notin> set (outputBuffer (onData parse c s))"
    by (simp add: onData_outputBuffer last_splitNL_no_newline)
  have sp: "splitNL (outputBuffer s @ c @ concat cs) =
      butlast (splitNL (outputBuffer s @ c)) @
      splitNL (last (splitNL (outputBuffer s @ c)) @ concat cs)"
    using splitNL_append [of "outputBuffer s @ c" "concat cs"] by simp
  show ?case
    using Cons.IH [OF nl]
    by (simp add: onData_outputBuffer onData_emitted sp splitNL_nonempty butlast_append)
qed


text \<open>
  Text chunks.  Let \<open>fs\<close> be frames without a newline that \<^verbatim>\<open>processOutputBuffer\<close>
  decodes (the trimmed text is enclosed in braces and parses), followed by an
  unterminated segment \<open>rest\<close>.  However the text of the newline-terminated frames and
  of \<open>rest\<close> is cut into the texts \<open>cs\<close> that are appended to the buffer (inside a
  frame, several frames at once, empty texts), and whatever partial segment the buffer
  already holds, the listener emits exactly \<open>fs\<close>, in order, and leaves \<open>rest\<close> in
  \<^verbatim>\<open>outputBuffer\<close>.
\<close>

theorem demux_chunking:
  assumes "\<forall>f \<in> set fs. newline \<notin> set f \<and> decode parse f \<noteq> None"
    and "newline \<notin> set rest"
    and "newline \<notin> set (outputBuffer s)"
    and "outputBuffer s @ concat cs = concat (map (\<lambda>f. f @ [newline]) fs) @ rest"
  shows "emitted (fold (onData parse) cs s) = emitted s @ fs \<and>
         outputBuffer (fold (onData parse) cs s) = rest"
proof -
  have sp: "splitNL (outputBuffer s @ concat cs) = fs @ [rest]"
    using assms by (simp add: splitNL_frames)
  have "filter (\<lambda>seg. decode parse seg \<noteq> None) fs = fs"
    using assms(1) by (simp add: filter_id_conv)
  then show ?thesis
    using feed_chunks [OF assms(3), of parse cs] by (simp add: sp)
qed


theorem demux_chunking_witness:
  "newline \<notin> set (idFrame 1) \<and> decode sampleParse (idFrame 1) \<noteq> None \<and>
   newline \<notin> set ('' '' @ idFrame 2) \<and> decode sampleParse ('' '' @ idFrame 2) \<noteq> None \<and>
   newline \<notin> set ''{par'' \<and> newline \<notin> set (outputBuffer init) \<and>
   outputBuffer init @ concat sampleChunks =
     concat (map (\<lambda>f. f @ [newline]) [idFrame 1, '' '' @ idFrame 2]) @ ''{par'' \<and>
   emitted (fold (onData sampleParse) sampleChunks init) =
     emitted init @ [idFrame 1, '' '' @ idFrame 2] \<and>
   outputBuffer (fold (onData sampleParse) sampleChunks init) = ''{par''"
proof -
  have a1: "newline \<notin> set (idFrame 1) \<and> decode sampleParse (idFrame 1) \<noteq> None"
    by (simp add: decode_def sampleParse_def idFrame_def trim_eval dq_def newline_def)
  have a2: "newline \<notin> set ('' '' @ idFrame 2) \<and>
            decode sampleParse ('' '' @ idFrame 2) \<noteq> None"
    by (simp add: decode_def sampleParse_def idFrame_def trim_eval dq_def newline_def)
  have a: "\<forall>f \<in> set [idFrame 1, '' '' @ idFrame 2].
             newline \<notin> set f \<and> decode sampleParse f \<noteq> None"
    using a1 a2 by simp
  have b: "newline \<notin> set ''{par''"
    by (simp add: newline_def)
  have c: "newline \<notin> set (outputBuffer init)"
    by (simp add: init_def)
  have d: "outputBuffer init @ concat sampleChunks =
             concat (map (\<lambda>f. f @ [newline]) [idFrame 1, '' '' @ idFrame 2]) @ ''{par''"
    by (simp add: init_def idFrame_def sampleChunks_def)
  show ?thesis
    using a b c d demux_chunking [OF a b c d] by simp
qed


lemma fold_onBytes: "fold (onBytes parse) cs s = fold (onData parse) (map toStringUtf8 cs) s"
  by (induction cs arbitrary: s) (simp_all add: onBytes_def)

lemma toStringUtf8_ascii: "\<forall>c \<in> set s. byte c < 0x80 \<Longrightarrow> toStringUtf8 s = s"
  unfolding toStringUtf8_def by (induction s) (auto simp: decodeFrom.simps)

text \<open>
  The same holds for the chunks of bytes that the stream delivers, as long as every
  chunk decodes to itself, that is, no chunk boundary lies inside a character.
\<close>

lemma demux_aligned_bytes:
  assumes "\<forall>c \<in> set cs. toStringUtf8 c = c"
    and "\<forall>f \<in> set fs. newline \<notin> set f \<and> decode parse f \<noteq> None"
    and "newline \<notin> set rest"
    and "newline \<notin> set (outputBuffer s)"
    and "outputBuffer s @ concat cs = concat (map (\<lambda>f. f @ [newline]) fs) @ rest"
  shows "emitted (fold (onBytes parse) cs s) = emitted s @ fs \<and>
         outputBuffer (fold (onBytes parse) cs s) = rest"
proof -
  have "map toStringUtf8 cs = cs"
    using assms(1) by (simp add: map_idI)
  then show ?thesis
    using demux_chunking [OF assms(2-5)] by (simp add: fold_onBytes)
qed

lemma accent_decoded:
  "concat (map toStringUtf8 accentChunks) = garbledFrame @ [newline]"
  by (simp add: accentChunks_def garbledFrame_def utf8_eval dq_def newline_def)

lemma accent_whole: "toStringUtf8 (accentFrame @ [newline]) = accentFrame @ [newline]"
  by (simp add: accentFrame_def utf8_eval dq_def newline_def)

lemma accent_no_newline: "newline \<notin> set accentFrame" "newline \<notin> set garbledFrame"
  by (simp_all add: accentFrame_def garbledFrame_def replacement_def dq_def newline_def)

lemma accent_differ: "garbledFrame \<noteq> accentFrame"
  by (simp add: accentFrame_def garbledFrame_def replacement_def)

lemma accent_decode:
  "decode accentParse accentFrame \<noteq> None" "decode accentParse garbledFrame \<noteq> None"
  by (simp_all add: decode_def accentParse_def accentFrame_def garbledFrame_def replacement_def
        trim_eval dq_def)

lemma emitted_garbled:
  "emitted (fold (onBytes parse) accentChunks init) =
     (if decode parse garbledFrame = None then [] else [garbledFrame])"
proof -
  have sp: "splitNL (garbledFrame @ [newline]) = [garbledFrame, []]"
    using splitNL_terminated [OF accent_no_newline(2), of "[]"] by simp
  have "newline \<notin> set (outputBuffer init)" by (simp add: init_def)
  from feed_chunks [OF this, of parse "map toStringUtf8 accentChunks"]
  show ?thesis
    by (simp add: fold_onBytes accent_decoded sp init_def)
qed

text \<open>
  Claim C1.  The claim does not hold for a cut inside a multi-byte character, because
  line 39 decodes every chunk on its own.  The frame \<open>accentFrame\<close> is well formed and
  is emitted when it arrives in one chunk.  Cut between the two bytes of its character
  U+00E9, the same bytes make the client emit \<open>garbledFrame\<close>, in which the character
  has become two U+FFFD; whatever \<^verbatim>\<open>JSON.parse\<close> does, the original frame is not what
  is emitted.
\<close>

theorem demux_split_character:
  "concat accentChunks = accentFrame @ [newline] \<and>
   emitted (fold (onBytes accentParse) [accentFrame @ [newline]] init) = [accentFrame] \<and>
   emitted (fold (onBytes accentParse) accentChunks init) = [garbledFrame] \<and>
   garbledFrame \<noteq> accentFrame \<and>
   (\<forall>parse. emitted (fold (onBytes parse) accentChunks init) \<noteq> [accentFrame])"
proof -
  have a: "concat accentChunks = accentFrame @ [newline]"
    by (simp add: accentChunks_def accentFrame_def)
  have sp: "splitNL (accentFrame @ [newline]) = [accentFrame, []]"
    using splitNL_terminated [OF accent_no_newline(1), of "[]"] by simp
  have nl: "newline \<notin> set (outputBuffer init)" by (simp add: init_def)
  have b: "emitted (fold (onBytes accentParse) [accentFrame @ [newline]] init) = [accentFrame]"
    using feed_chunks [OF nl, of accentParse "[accentFrame @ [newline]]"] accent_decode(1)
    by (simp add: onBytes_def accent_whole sp init_def)
  have c: "emitted (fold (onBytes accentParse) accentChunks init) = [garbledFrame]"
    using accent_decode(2) by (simp add: emitted_garbled)
  have d: "\<forall>parse. emitted (fold (onBytes parse) accentChunks init) \<noteq> [accentFrame]"
    using accent_differ by (simp add: emitted_garbled)
  from a b c d accent_differ show ?thesis by blast
qed

section \<open>The correlation table\<close>


lemma inv_init: "inv init"
  by (simp add: inv_def init_def)

lemma inv_start: "inv s \<Longrightarrow> inv (start s)"
  by (simp add: inv_def start_def)

lemma inv_cleanup: "inv s \<Longrightarrow> inv (cleanup s)"
  by (simp add: inv_def cleanup_def)

lemma inv_fields:
  "inv s \<Longrightarrow> requestId s' = requestId s \<Longrightarrow> calls s' = calls s \<Longrightarrow>
   responseHandlers s' = responseHandlers s \<Longrightarrow> written s' = written s \<Longrightarrow> inv s'"
  by (simp add: inv_def)

lemma inv_onSpawnError: "inv s \<Longrightarrow> inv (onSpawnError s)"
  by (erule inv_fields) (simp_all add: onSpawnError_def)

lemma inv_onStartTimeout: "inv s \<Longrightarrow> inv (onStartTimeout s)"
  by (simp add: inv_def onStartTimeout_def cleanup_def Let_def)

lemma invD_requestId: "inv s \<Longrightarrow> requestId s = int (length (calls s))"
  by (simp add: inv_def)

lemma invD_call:
  "inv s \<Longrightarrow> c < length (calls s) \<Longrightarrow>
   c_id (calls s ! c) = int c + 1 \<and>
   (c_timer (calls s ! c) \<longleftrightarrow> c_promise (calls s ! c) = Pending) \<and>
   (\<forall>r. c_promise (calls s ! c) = Resolved r \<longrightarrow> getProp r ''id'' = Some (JNum (int c + 1)))"
  by (simp add: inv_def)

lemma invD_handler:
  "inv s \<Longrightarrow> responseHandlers s k = Some c \<Longrightarrow>
   c < length (calls s) \<and> k = int c + 1 \<and> c_promise (calls s ! c) = Pending"
  unfolding inv_def by blast

lemma invD_written:
  "inv s \<Longrightarrow> map r_id (written s) = map (\<lambda>c. int c + 1) [0 ..< length (calls s)]"
  by (simp add: inv_def)

lemma invI:
  assumes "requestId s = int (length (calls s))"
    and "\<And>c. c < length (calls s) \<Longrightarrow>
           c_id (calls s ! c) = int c + 1 \<and>
           (c_timer (calls s ! c) \<longleftrightarrow> c_promise (calls s ! c) = Pending) \<and>
           (\<forall>r. c_promise (calls s ! c) = Resolved r \<longrightarrow>
                getProp r ''id'' = Some (JNum (int c + 1)))"
    and "\<And>k c. responseHandlers s k = Some c \<Longrightarrow>
           c < length (calls s) \<and> k = int c + 1 \<and> c_promise (calls s ! c) = Pending"
    and "map r_id (written s) = map (\<lambda>c. int c + 1) [0 ..< length (calls s)]"
  shows "inv s"
  unfolding inv_def using assms by blast

lemma sendRequest_ready:
  "serverReady s \<Longrightarrow> server s \<Longrightarrow>
   sendRequest method params s =
     (Inr (length (calls s)),
      s\<lparr> requestId := requestId s + 1,
         calls := calls s @ [\<lparr> c_id = requestId s + 1, c_method = method,
                               c_timer = True, c_promise = Pending \<rparr>],
         responseHandlers := (responseHandlers s)(requestId s + 1 \<mapsto> length (calls s)),
         written := written s @ [\<lparr> r_id = requestId s + 1, r_method = method,
                                   r_params = params \<rparr>] \<rparr>)"
  by (simp add: sendRequest_def Let_def)

lemma sendRequest_not_ready:
  "\<not> serverReady s \<or> \<not> server s \<Longrightarrow> sendRequest method params s = (Inl ServerNotReady, s)"
  by (auto simp: sendRequest_def)

lemma inv_sendRequest:
  assumes "inv s"
  shows "inv (snd (sendRequest method params s))"
proof (cases "serverReady s \<and> server s")
  case False
  then show ?thesis using assms by (auto simp: sendRequest_not_ready)
next
  case True
  let ?s' = "snd (sendRequest method params s)"
  have eq: "requestId ?s' = requestId s + 1"
    "calls ?s' = calls s @ [\<lparr> c_id = requestId s + 1, c_method = method,
                               c_timer = True, c_promise = Pending \<rparr>]"
    "responseHandlers ?s' = (responseHandlers s)(requestId s + 1 \<mapsto> length (calls s))"
    "written ?s' = written s @ [\<lparr> r_id = requestId s + 1, r_method = method,
                                   r_params = params \<rparr>]"
    using True by (simp_all add: sendRequest_ready)
  note rid = invD_requestId [OF assms]
  show ?thesis
  proof (rule invI)
    show "requestId ?s' = int (length (calls ?s'))"
      by (simp add: eq rid)
  next
    fix c assume "c < length (calls ?s')"
    then have "c < length (calls s) \<or> c = length (calls s)"
      by (auto simp: eq)
    then show "c_id (calls ?s' ! c) = int c + 1 \<and>
           (c_timer (calls ?s' ! c) \<longleftrightarrow> c_promise (calls ?s' ! c) = Pending) \<and>
           (\<forall>r. c_promise (calls ?s' ! c) = Resolved r \<longrightarrow>
                getProp r ''id'' = Some (JNum (int c + 1)))"
      using invD_call [OF assms, of c] by (auto simp: eq nth_append rid)
  next
    fix k c assume h: "responseHandlers ?s' k = Some c"
    show "c < length (calls ?s') \<and> k = int c + 1 \<and> c_promise (calls ?s' ! c) = Pending"
    proof (cases "k = requestId s + 1")
      case True
      then have "c = length (calls s)" using h by (simp add: eq)
      then show ?thesis using True by (simp add: eq rid nth_append)
    next
      case False
      then have "responseHandlers s k = Some c" using h by (simp add: eq)
      from invD_handler [OF assms this] show ?thesis by (simp add: eq nth_append)
    qed
  next
    show "map r_id (written ?s') = map (\<lambda>c. int c + 1) [0 ..< length (calls ?s')]"
      by (simp add: eq rid invD_written [OF assms])
  qed
qed

lemma inv_onTimeout:
  assumes "inv s"
  shows "inv (onTimeout c s)"
proof (cases "c < length (calls s) \<and> c_timer (calls s ! c)")
  case False
  then show ?thesis using assms by (auto simp: onTimeout_def)
next
  case True
  let ?s' = "onTimeout c s"
  let ?e = "calls s ! c"
  have eq: "requestId ?s' = requestId s"
    "calls ?s' = (calls s)[c := ?e\<lparr> c_timer := False,
        c_promise := settle (Rejected (RequestTimedOut (c_method ?e))) (c_promise ?e) \<rparr>]"
    "responseHandlers ?s' = (responseHandlers s)(c_id ?e := None)"
    "written ?s' = written s"
    using True by (simp_all add: onTimeout_def Let_def)
  have idc: "c_id ?e = int c + 1" using invD_call [OF assms, of c] True by simp
  show ?thesis
  proof (rule invI)
    show "requestId ?s' = int (length (calls ?s'))"
      by (simp add: eq invD_requestId [OF assms])
  next
    fix d assume "d < length (calls ?s')"
    then have d: "d < length (calls s)" by (simp add: eq)
    show "c_id (calls ?s' ! d) = int d + 1 \<and>
           (c_timer (calls ?s' ! d) \<longleftrightarrow> c_promise (calls ?s' ! d) = Pending) \<and>
           (\<forall>r. c_promise (calls ?s' ! d) = Resolved r \<longrightarrow>
                getProp r ''id'' = Some (JNum (int d + 1)))"
      using invD_call [OF assms d] True
      by (cases "d = c") (auto simp: eq nth_list_update settle_def)
  next
    fix k d assume h: "responseHandlers ?s' k = Some d"
    then have k: "k \<noteq> c_id ?e" and h': "responseHandlers s k = Some d"
      by (auto simp: eq split: if_splits)
    from invD_handler [OF assms h'] k idc have "d \<noteq> c" by auto
    with invD_handler [OF assms h']
    show "d < length (calls ?s') \<and> k = int d + 1 \<and> c_promise (calls ?s' ! d) = Pending"
      by (simp add: eq)
  next
    show "map r_id (written ?s') = map (\<lambda>c. int c + 1) [0 ..< length (calls ?s')]"
      by (simp add: eq invD_written [OF assms])
  qed
qed

lemma handlerFor_Some:
  "handlerFor s rid = Some (k, c) \<longleftrightarrow> rid = JNum k \<and> responseHandlers s k = Some c"
  by (auto simp: handlerFor_def split: jsval.splits option.splits)

lemma handlerFor_None:
  "handlerFor s rid = None \<longleftrightarrow> (\<forall>k. rid = JNum k \<longrightarrow> responseHandlers s k = None)"
  by (auto simp: handlerFor_def split: jsval.splits option.splits)

lemma dispatch_fires:
  "getProp r ''id'' = Some (JNum k) \<Longrightarrow> k \<noteq> 0 \<Longrightarrow> responseHandlers s k = Some c \<Longrightarrow>
   dispatch r s = s\<lparr> responseHandlers := (responseHandlers s)(k := None),
                      calls := fire c r (calls s) \<rparr>"
  by (simp add: dispatch_def handlerFor_def)

lemma dispatch_cases:
  "dispatch r s = s \<or>
   (\<exists>k c. getProp r ''id'' = Some (JNum k) \<and> k \<noteq> 0 \<and> responseHandlers s k = Some c \<and>
      dispatch r s = s\<lparr> responseHandlers := (responseHandlers s)(k := None),
                         calls := fire c r (calls s) \<rparr>)"
  by (auto simp: dispatch_def handlerFor_def split: option.splits jsval.splits)

lemma inv_dispatch:
  assumes "inv s"
  shows "inv (dispatch r s)"
proof -
  from dispatch_cases [of r s] show ?thesis
  proof
    assume "dispatch r s = s"
    then show ?thesis using assms by simp
  next
    assume "\<exists>k c. getProp r ''id'' = Some (JNum k) \<and> k \<noteq> 0 \<and> responseHandlers s k = Some c \<and>
      dispatch r s = s\<lparr> responseHandlers := (responseHandlers s)(k := None),
                         calls := fire c r (calls s) \<rparr>"
    then obtain k c where rid: "getProp r ''id'' = Some (JNum k)"
      and h: "responseHandlers s k = Some c"
      and d: "dispatch r s = s\<lparr> responseHandlers := (responseHandlers s)(k := None),
                         calls := fire c r (calls s) \<rparr>"
      by blast
    note hc = invD_handler [OF assms h]
    let ?s' = "dispatch r s"
    have eq: "requestId ?s' = requestId s"
      "calls ?s' = (calls s)[c := (calls s ! c)\<lparr> c_timer := False, c_promise := Resolved r \<rparr>]"
      "responseHandlers ?s' = (responseHandlers s)(k := None)"
      "written ?s' = written s"
      using hc by (simp_all add: d fire_def settle_def)
    show ?thesis
    proof (rule invI)
      show "requestId ?s' = int (length (calls ?s'))"
        by (simp add: eq invD_requestId [OF assms])
    next
      fix e assume "e < length (calls ?s')"
      then have e: "e < length (calls s)" by (simp add: eq)
      show "c_id (calls ?s' ! e) = int e + 1 \<and>
           (c_timer (calls ?s' ! e) \<longleftrightarrow> c_promise (calls ?s' ! e) = Pending) \<and>
           (\<forall>r. c_promise (calls ?s' ! e) = Resolved r \<longrightarrow>
                getProp r ''id'' = Some (JNum (int e + 1)))"
        using invD_call [OF assms e] hc rid
        by (cases "e = c") (auto simp: eq nth_list_update)
    next
      fix k' e assume h': "responseHandlers ?s' k' = Some e"
      then have k: "k' \<noteq> k" and h'': "responseHandlers s k' = Some e"
        by (auto simp: eq split: if_splits)
      from invD_handler [OF assms h''] k hc have "e \<noteq> c" by auto
      with invD_handler [OF assms h'']
      show "e < length (calls ?s') \<and> k' = int e + 1 \<and> c_promise (calls ?s' ! e) = Pending"
        by (simp add: eq)
    next
      show "map r_id (written ?s') = map (\<lambda>c. int c + 1) [0 ..< length (calls ?s')]"
        by (simp add: eq invD_written [OF assms])
    qed
  qed
qed

lemma inv_handleSegment: "inv s \<Longrightarrow> inv (handleSegment parse seg s)"
  unfolding handleSegment_def
  by (auto split: option.splits intro!: inv_dispatch elim: inv_fields)

lemma inv_fold_handleSegment: "inv s \<Longrightarrow> inv (fold (handleSegment parse) segs s)"
  by (induction segs arbitrary: s) (auto simp: inv_handleSegment)

lemma inv_processOutputBuffer: "inv s \<Longrightarrow> inv (processOutputBuffer parse s)"
  unfolding processOutputBuffer_def Let_def
  by (rule inv_fold_handleSegment) (erule inv_fields, simp_all)

lemma inv_onData:
  assumes "inv s"
  shows "inv (onData parse output s)"
proof -
  have a: "inv (s\<lparr> outputBuffer := outputBuffer s @ output \<rparr>)"
    using assms by (rule inv_fields) simp_all
  have b: "inv (s\<lparr> outputBuffer := outputBuffer s @ output, serverReady := True,
                    startTimer := False \<rparr>)"
    using assms by (rule inv_fields) simp_all
  have c: "inv (t\<lparr> startPromise := p \<rparr>)" if "inv t" for t p
    using that by (rule inv_fields) simp_all
  show ?thesis
    unfolding onData_def Let_def
    by (auto intro!: inv_processOutputBuffer a b c)
qed

lemma inv_step: "inv s \<Longrightarrow> inv (step parse ev s)"
  by (cases ev)
     (simp_all add: inv_onData inv_sendRequest inv_onTimeout inv_onStartTimeout
        inv_onSpawnError inv_cleanup)

lemma inv_run: "inv s \<Longrightarrow> inv (run parse evs s)"
  unfolding run_def by (induction evs arbitrary: s) (auto simp: inv_step)

lemma inv_reachable: "inv (run parse evs (start init))"
  by (simp add: inv_run inv_start inv_init)



subsection \<open>Fields that the demultiplexer leaves alone\<close>

lemma dispatch_frame [simp]:
  "server (dispatch r s) = server s"
  "serverReady (dispatch r s) = serverReady s"
  "startTimer (dispatch r s) = startTimer s"
  "startPromise (dispatch r s) = startPromise s"
  "written (dispatch r s) = written s"
  "requestId (dispatch r s) = requestId s"
  using dispatch_cases [of r s] by auto

lemma handleSegment_frame [simp]:
  "server (handleSegment parse seg s) = server s"
  "serverReady (handleSegment parse seg s) = serverReady s"
  "startTimer (handleSegment parse seg s) = startTimer s"
  "startPromise (handleSegment parse seg s) = startPromise s"
  "written (handleSegment parse seg s) = written s"
  "requestId (handleSegment parse seg s) = requestId s"
  by (simp_all add: handleSegment_def split: option.splits)

lemma fold_handleSegment_frame [simp]:
  "server (fold (handleSegment parse) segs s) = server s"
  "serverReady (fold (handleSegment parse) segs s) = serverReady s"
  "startTimer (fold (handleSegment parse) segs s) = startTimer s"
  "startPromise (fold (handleSegment parse) segs s) = startPromise s"
  "written (fold (handleSegment parse) segs s) = written s"
  "requestId (fold (handleSegment parse) segs s) = requestId s"
  by (induction segs arbitrary: s) simp_all

lemma processOutputBuffer_frame [simp]:
  "server (processOutputBuffer parse s) = server s"
  "serverReady (processOutputBuffer parse s) = serverReady s"
  "startTimer (processOutputBuffer parse s) = startTimer s"
  "startPromise (processOutputBuffer parse s) = startPromise s"
  "written (processOutputBuffer parse s) = written s"
  "requestId (processOutputBuffer parse s) = requestId s"
  by (simp_all add: processOutputBuffer_def Let_def)

lemma onData_not_ready:
  "\<not> includesText output readyText \<Longrightarrow>
   onData parse output s = processOutputBuffer parse (s\<lparr> outputBuffer := outputBuffer s @ output \<rparr>)"
  by (simp add: onData_def Let_def)

subsection \<open>A settled promise keeps its outcome\<close>

lemma length_fire [simp]: "length (fire c r cs) = length cs"
  by (simp add: fire_def)

lemma fire_settled:
  "d < length cs \<Longrightarrow> c_promise (cs ! d) \<noteq> Pending \<Longrightarrow>
   c_promise (fire c r cs ! d) = c_promise (cs ! d)"
  by (simp add: fire_def nth_list_update settle_def)

lemma fire_other: "d \<noteq> c \<Longrightarrow> fire c r cs ! d = cs ! d"
  by (simp add: fire_def)

lemma fire_pending:
  "c < length cs \<Longrightarrow> c_promise (cs ! c) = Pending \<Longrightarrow>
   c_promise (fire c r cs ! c) = Resolved r"
  by (simp add: fire_def settle_def)

lemma fire_frame [simp]:
  "c_id (fire c r cs ! d) = c_id (cs ! d)" "c_method (fire c r cs ! d) = c_method (cs ! d)"
  by (simp_all add: fire_def nth_list_update)

lemma length_calls_dispatch [simp]: "length (calls (dispatch r s)) = length (calls s)"
  using dispatch_cases [of r s] by auto

lemma dispatch_settled:
  "d < length (calls s) \<Longrightarrow> c_promise (calls s ! d) \<noteq> Pending \<Longrightarrow>
   c_promise (calls (dispatch r s) ! d) = c_promise (calls s ! d)"
  using dispatch_cases [of r s] by (auto simp: fire_settled)

lemma dispatch_call_frame [simp]:
  "c_id (calls (dispatch r s) ! d) = c_id (calls s ! d)"
  "c_method (calls (dispatch r s) ! d) = c_method (calls s ! d)"
  using dispatch_cases [of r s] by auto

lemma settledAt_dispatch: "settledAt d p s \<Longrightarrow> settledAt d p (dispatch r s)"
  by (simp add: settledAt_def dispatch_settled)

lemma settledAt_fields: "settledAt d p s \<Longrightarrow> calls s' = calls s \<Longrightarrow> settledAt d p s'"
  by (simp add: settledAt_def)

lemma settledAt_handleSegment: "settledAt d p s \<Longrightarrow> settledAt d p (handleSegment parse seg s)"
  unfolding handleSegment_def
  by (auto split: option.splits intro!: settledAt_dispatch elim: settledAt_fields)

lemma settledAt_fold_handleSegment:
  "settledAt d p s \<Longrightarrow> settledAt d p (fold (handleSegment parse) segs s)"
  by (induction segs arbitrary: s) (auto simp: settledAt_handleSegment)

lemma settledAt_processOutputBuffer:
  "settledAt d p s \<Longrightarrow> settledAt d p (processOutputBuffer parse s)"
  unfolding processOutputBuffer_def Let_def
  by (rule settledAt_fold_handleSegment) (erule settledAt_fields, simp)

lemma settledAt_onData:
  assumes "settledAt d p s"
  shows "settledAt d p (onData parse output s)"
proof -
  have a: "settledAt d p (s\<lparr> outputBuffer := outputBuffer s @ output \<rparr>)"
    using assms by (rule settledAt_fields) simp
  have b: "settledAt d p (s\<lparr> outputBuffer := outputBuffer s @ output, serverReady := True,
                    startTimer := False \<rparr>)"
    using assms by (rule settledAt_fields) simp
  have c: "settledAt d p (t\<lparr> startPromise := q \<rparr>)" if "settledAt d p t" for t q
    using that by (rule settledAt_fields) simp
  show ?thesis
    unfolding onData_def Let_def
    by (auto intro!: settledAt_processOutputBuffer a b c)
qed

lemma settledAt_sendRequest: "settledAt d p s \<Longrightarrow> settledAt d p (snd (sendRequest m q s))"
  by (auto simp: settledAt_def sendRequest_def Let_def nth_append)

lemma settledAt_onTimeout: "settledAt d p s \<Longrightarrow> settledAt d p (onTimeout c s)"
  by (auto simp: settledAt_def onTimeout_def Let_def nth_list_update settle_def)

lemma settledAt_step: "settledAt d p s \<Longrightarrow> settledAt d p (step parse ev s)"
  by (cases ev)
     (auto simp: settledAt_onData settledAt_sendRequest settledAt_onTimeout
        elim: settledAt_fields simp: onStartTimeout_def onSpawnError_def cleanup_def Let_def)

lemma settledAt_run: "settledAt d p s \<Longrightarrow> settledAt d p (run parse evs s)"
  unfolding run_def by (induction evs arbitrary: s) (auto simp: settledAt_step)

subsection \<open>A released identifier is never registered again\<close>

lemma retired_dispatch: "retired k s \<Longrightarrow> retired k (dispatch r s)"
  using dispatch_cases [of r s] by (auto simp: retired_def)

lemma retired_fields:
  "retired k s \<Longrightarrow> requestId s' = requestId s \<Longrightarrow>
   responseHandlers s' = responseHandlers s \<Longrightarrow> retired k s'"
  by (simp add: retired_def)

lemma retired_handleSegment: "retired k s \<Longrightarrow> retired k (handleSegment parse seg s)"
  unfolding handleSegment_def
  by (auto split: option.splits intro!: retired_dispatch elim: retired_fields)

lemma retired_fold_handleSegment:
  "retired k s \<Longrightarrow> retired k (fold (handleSegment parse) segs s)"
  by (induction segs arbitrary: s) (auto simp: retired_handleSegment)

lemma retired_processOutputBuffer:
  "retired k s \<Longrightarrow> retired k (processOutputBuffer parse s)"
  unfolding processOutputBuffer_def Let_def
  by (rule retired_fold_handleSegment) (erule retired_fields, simp_all)

lemma retired_onData:
  assumes "retired k s"
  shows "retired k (onData parse output s)"
proof -
  have a: "retired k (s\<lparr> outputBuffer := outputBuffer s @ output \<rparr>)"
    using assms by (rule retired_fields) simp_all
  have b: "retired k (s\<lparr> outputBuffer := outputBuffer s @ output, serverReady := True,
                    startTimer := False \<rparr>)"
    using assms by (rule retired_fields) simp_all
  have c: "retired k (t\<lparr> startPromise := q \<rparr>)" if "retired k t" for t q
    using that by (rule retired_fields) simp_all
  show ?thesis
    unfolding onData_def Let_def
    by (auto intro!: retired_processOutputBuffer a b c)
qed

lemma retired_step:
  assumes "retired k s"
  shows "retired k (step parse ev s)"
proof (cases ev)
  case (Data x)
  then show ?thesis using assms by (simp add: retired_onData)
qed (insert assms, auto simp: retired_def sendRequest_def onTimeout_def
        onStartTimeout_def onSpawnError_def cleanup_def Let_def)

lemma retired_run: "retired k s \<Longrightarrow> retired k (run parse evs s)"
  unfolding run_def by (induction evs arbitrary: s) (auto simp: retired_step)

lemma dispatch_retired:
  "retired k s \<Longrightarrow> getProp r ''id'' = Some (JNum k) \<Longrightarrow> dispatch r s = s"
  by (simp add: dispatch_def handlerFor_def retired_def)


subsection \<open>The identifier filter\<close>

text \<open>
  Claim C10.  Lines 77 to 81 change the client only when the message's \<^verbatim>\<open>id\<close> is truthy
  and a handler is stored under it; a message whose \<^verbatim>\<open>id\<close> is absent, \<^verbatim>\<open>null\<close> or the
  number 0 is dropped and the client is unchanged.  In every run of a started client
  the \<open>i\<close>-th request written (counting from 0) carries the identifier \<open>i + 1\<close>, so
  the identifiers are 1, 2, 3, ... and none is used twice; every key of
  \<^verbatim>\<open>responseHandlers\<close> is at least 1, hence truthy, and a response bearing a registered
  identifier always resolves the promise of the call stored under it.  The counter is
  an unbounded integer here.
\<close>

theorem id_filter:
  "(dispatch r s \<noteq> s \<longrightarrow>
      (\<exists>rid. getProp r ''id'' = Some rid \<and> truthy rid \<and> handlerFor s rid \<noteq> None)) \<and>
   (getProp r ''id'' = Some Undefined \<or> getProp r ''id'' = Some Null \<or>
    getProp r ''id'' = Some (JNum 0) \<longrightarrow> dispatch r s = s) \<and>
   (\<forall>i < length (written (run parse evs (start init))).
      r_id (written (run parse evs (start init)) ! i) = int i + 1) \<and>
   (\<forall>k c. responseHandlers (run parse evs (start init)) k = Some c \<and>
          getProp r ''id'' = Some (JNum k) \<longrightarrow>
      1 \<le> k \<and> truthy (JNum k) \<and>
      c_promise (calls (dispatch r (run parse evs (start init))) ! c) = Resolved r)"
proof -
  let ?t = "run parse evs (start init)"
  have inv: "inv ?t" by (rule inv_reachable)
  have a: "dispatch r s \<noteq> s \<longrightarrow>
      (\<exists>rid. getProp r ''id'' = Some rid \<and> truthy rid \<and> handlerFor s rid \<noteq> None)"
    by (auto simp: dispatch_def split: option.splits)
  have b: "getProp r ''id'' = Some Undefined \<or> getProp r ''id'' = Some Null \<or>
    getProp r ''id'' = Some (JNum 0) \<longrightarrow> dispatch r s = s"
    by (auto simp: dispatch_def)
  have c: "\<forall>i < length (written ?t). r_id (written ?t ! i) = int i + 1"
  proof (intro allI impI)
    fix i assume i: "i < length (written ?t)"
    have len: "length (written ?t) = length (calls ?t)"
      using arg_cong [OF invD_written [OF inv], of length] by simp
    have "map r_id (written ?t) ! i = map (\<lambda>c. int c + 1) [0 ..< length (calls ?t)] ! i"
      by (simp only: invD_written [OF inv])
    then show "r_id (written ?t ! i) = int i + 1"
      using i len by simp
  qed
  have d: "\<forall>k c. responseHandlers ?t k = Some c \<and> getProp r ''id'' = Some (JNum k) \<longrightarrow>
      1 \<le> k \<and> truthy (JNum k) \<and> c_promise (calls (dispatch r ?t) ! c) = Resolved r"
  proof (intro allI impI, elim conjE)
    fix k c assume h: "responseHandlers ?t k = Some c" and rid: "getProp r ''id'' = Some (JNum k)"
    note hc = invD_handler [OF inv h]
    then have k: "1 \<le> k" by simp
    then have "dispatch r ?t = ?t\<lparr> responseHandlers := (responseHandlers ?t)(k := None),
                      calls := fire c r (calls ?t) \<rparr>"
      using dispatch_fires [OF rid _ h] by simp
    then show "1 \<le> k \<and> truthy (JNum k) \<and> c_promise (calls (dispatch r ?t) ! c) = Resolved r"
      using k hc by (simp add: fire_pending)
  qed
  from a b c d show ?thesis by blast
qed



subsection \<open>Timeouts\<close>

text \<open>
  Claim C5.  In every run of a started client, when the response timer of a call fires
  while still armed (no response with the call's identifier has been dispatched), the
  call's promise is rejected with the error \<^verbatim>\<open>Request <method> timed out\<close> and the entry
  under its identifier is removed.  After any further events, a response bearing that
  identifier leaves the client unchanged, and the promise still holds the timeout error.
\<close>

theorem timeout_then_late_response:
  assumes "s = run parse evs (start init)"
    and "c < length (calls s)"
    and "c_timer (calls s ! c)"
    and "getProp r ''id'' = Some (JNum (c_id (calls s ! c)))"
  shows "c_promise (calls (onTimeout c s) ! c) = Rejected (RequestTimedOut (c_method (calls s ! c))) \<and>
         responseHandlers (onTimeout c s) (c_id (calls s ! c)) = None \<and>
         dispatch r (run parse evs' (onTimeout c s)) = run parse evs' (onTimeout c s) \<and>
         c_promise (calls (run parse evs' (onTimeout c s)) ! c) =
           Rejected (RequestTimedOut (c_method (calls s ! c)))"
proof -
  have inv: "inv s" using assms(1) by (simp add: inv_reachable)
  note cc = invD_call [OF inv assms(2)]
  have pend: "c_promise (calls s ! c) = Pending" using cc assms(3) by simp
  let ?s' = "onTimeout c s"
  let ?p = "Rejected (RequestTimedOut (c_method (calls s ! c)))"
  have p: "c_promise (calls ?s' ! c) = ?p"
    using assms(2,3) pend by (simp add: onTimeout_def Let_def settle_def)
  have h: "responseHandlers ?s' (c_id (calls s ! c)) = None"
    using assms(2,3) by (simp add: onTimeout_def Let_def)
  have rid: "requestId ?s' = requestId s"
    by (simp add: onTimeout_def Let_def)
  have "c_id (calls s ! c) \<le> requestId s"
    using cc assms(2) invD_requestId [OF inv] by simp
  then have ret: "retired (c_id (calls s ! c)) ?s'"
    using h rid by (simp add: retired_def)
  have "settledAt c ?p ?s'"
    using p assms(2,3) by (simp add: settledAt_def onTimeout_def Let_def)
  then have st: "settledAt c ?p (run parse evs' ?s')"
    by (rule settledAt_run)
  have "dispatch r (run parse evs' ?s') = run parse evs' ?s'"
    using retired_run [OF ret] assms(4) by (rule dispatch_retired)
  with p h st show ?thesis by (simp add: settledAt_def)
qed

subsection \<open>\<^verbatim>\<open>cleanup\<close>\<close>

text \<open>
  Claim C4, as the code has it.  In every run of a started client whose worker is still
  attached, \<^verbatim>\<open>cleanup()\<close> empties \<^verbatim>\<open>responseHandlers\<close> and settles no promise: the closure
  environments are the same before and after.  A response that arrives afterwards is
  dropped.  A call that was pending keeps its armed response timer, and is rejected with
  the error \<^verbatim>\<open>Request <method> timed out\<close> when that timer fires.
\<close>

theorem cleanup_clears_table:
  assumes "s = run parse evs (start init)"
    and "server s"
  shows "responseHandlers (cleanup s) = Map.empty \<and>
         calls (cleanup s) = calls s \<and>
         dispatch r (cleanup s) = cleanup s \<and>
         (\<forall>c < length (calls s). c_promise (calls s ! c) = Pending \<longrightarrow>
            c_timer (calls (cleanup s) ! c) \<and>
            c_promise (calls (onTimeout c (cleanup s)) ! c) =
              Rejected (RequestTimedOut (c_method (calls s ! c))))"
proof -
  have inv: "inv s" using assms(1) by (simp add: inv_reachable)
  have a: "responseHandlers (cleanup s) = Map.empty" "calls (cleanup s) = calls s"
    using assms(2) by (simp_all add: cleanup_def)
  have b: "dispatch r (cleanup s) = cleanup s"
    by (simp add: dispatch_def handlerFor_def a split: option.splits jsval.splits)
  have c: "\<forall>c < length (calls s). c_promise (calls s ! c) = Pending \<longrightarrow>
            c_timer (calls (cleanup s) ! c) \<and>
            c_promise (calls (onTimeout c (cleanup s)) ! c) =
              Rejected (RequestTimedOut (c_method (calls s ! c)))"
    using invD_call [OF inv] by (auto simp: a onTimeout_def Let_def settle_def)
  from a b c show ?thesis by blast
qed

subsection \<open>Readiness\<close>

lemma serverReady_step:
  "serverReady (step parse ev s) \<Longrightarrow>
     serverReady s \<or> (\<exists>x. ev = Data x \<and> includesText x readyText)"
  by (cases ev)
     (auto simp: onData_def sendRequest_def onTimeout_def onStartTimeout_def
        onSpawnError_def cleanup_def Let_def split: if_splits)

lemma serverReady_run:
  "serverReady (run parse evs s) \<Longrightarrow>
     serverReady s \<or> (\<exists>x. Data x \<in> set evs \<and> includesText x readyText)"
proof (induction evs rule: rev_induct)
  case Nil
  then show ?case by (simp add: run_def)
next
  case (snoc ev evs)
  have "run parse (evs @ [ev]) s = step parse ev (run parse evs s)"
    by (simp add: run_def)
  with snoc.prems serverReady_step [of parse ev "run parse evs s"]
  have "serverReady (run parse evs s) \<or> (\<exists>x. ev = Data x \<and> includesText x readyText)"
    by simp
  with snoc.IH show ?case by auto
qed

lemma starting_step:
  assumes "starting s" and "\<forall>x. ev = Data x \<longrightarrow> \<not> includesText x readyText"
  shows "starting (step parse ev s)"
proof (cases ev)
  case (Data x)
  then show ?thesis using assms by (simp add: onData_not_ready starting_def)
qed (insert assms, auto simp: starting_def sendRequest_def onTimeout_def
        onStartTimeout_def onSpawnError_def cleanup_def Let_def settle_def split: if_splits)

lemma starting_run:
  "starting s \<Longrightarrow> \<forall>x. Data x \<in> set evs \<longrightarrow> \<not> includesText x readyText \<Longrightarrow>
   starting (run parse evs s)"
  unfolding run_def by (induction evs arbitrary: s) (auto simp: starting_step)

lemma spawn_ok_step:
  assumes "startTimer s \<and> startPromise s = Pending \<or> startPromise s = Rejected ServerStartTimeout"
    and "\<forall>x. ev = Data x \<longrightarrow> \<not> includesText x readyText" and "ev \<noteq> SpawnFailed"
  shows "startTimer (step parse ev s) \<and> startPromise (step parse ev s) = Pending \<or>
         startPromise (step parse ev s) = Rejected ServerStartTimeout"
proof (cases ev)
  case (Data x)
  then show ?thesis using assms by (simp add: onData_not_ready)
qed (insert assms, auto simp: sendRequest_def onTimeout_def
        onStartTimeout_def cleanup_def Let_def settle_def split: if_splits)

lemma spawn_ok_run:
  "startTimer s \<and> startPromise s = Pending \<or> startPromise s = Rejected ServerStartTimeout \<Longrightarrow>
   \<forall>x. Data x \<in> set evs \<longrightarrow> \<not> includesText x readyText \<Longrightarrow> SpawnFailed \<notin> set evs \<Longrightarrow>
   startTimer (run parse evs s) \<and> startPromise (run parse evs s) = Pending \<or>
   startPromise (run parse evs s) = Rejected ServerStartTimeout"
  unfolding run_def
proof (induction evs arbitrary: s)
  case Nil
  then show ?case by simp
next
  case (Cons ev evs)
  have "startTimer (step parse ev s) \<and> startPromise (step parse ev s) = Pending \<or>
         startPromise (step parse ev s) = Rejected ServerStartTimeout"
    using Cons.prems by (intro spawn_ok_step) auto
  from Cons.IH [OF this] Cons.prems show ?case by simp
qed

text \<open>
  Claim C9.  \<^verbatim>\<open>sendRequest\<close> with \<^verbatim>\<open>serverReady\<close> false returns the rejection
  \<^verbatim>\<open>Server not ready\<close> and leaves the client unchanged, so nothing is written.  In a run
  of a started client, a \<^verbatim>\<open>sendRequest\<close> that writes a request comes after a chunk of
  the worker's output that contains the readiness line.  When no chunk contains the
  readiness line, nothing has been written, and once the start timer has fired the
  promise of \<^verbatim>\<open>start()\<close> is rejected: with the start timeout error, or with the spawn
  error when the process's \<^verbatim>\<open>error\<close> event came first.
\<close>

theorem no_request_before_ready:
  "(\<not> serverReady s \<longrightarrow> sendRequest method params s = (Inl ServerNotReady, s)) \<and>
   (written (run parse (pre @ [Send method params]) (start init)) \<noteq>
      written (run parse pre (start init)) \<longrightarrow>
      (\<exists>x. Data x \<in> set pre \<and> includesText x readyText)) \<and>
   ((\<forall>x. Data x \<in> set evs \<longrightarrow> \<not> includesText x readyText) \<longrightarrow>
      written (run parse evs (start init)) = [] \<and>
      (startPromise (onStartTimeout (run parse evs (start init))) = Rejected ServerStartTimeout \<or>
       startPromise (onStartTimeout (run parse evs (start init))) = Rejected SpawnError) \<and>
      (SpawnFailed \<notin> set evs \<longrightarrow>
         startPromise (onStartTimeout (run parse evs (start init))) =
           Rejected ServerStartTimeout))"
proof -
  have a: "\<not> serverReady s \<longrightarrow> sendRequest method params s = (Inl ServerNotReady, s)"
    by (simp add: sendRequest_def)
  have b: "written (run parse (pre @ [Send method params]) (start init)) \<noteq>
      written (run parse pre (start init)) \<longrightarrow>
      (\<exists>x. Data x \<in> set pre \<and> includesText x readyText)"
  proof
    let ?t = "run parse pre (start init)"
    assume "written (run parse (pre @ [Send method params]) (start init)) \<noteq> written ?t"
    then have "written (snd (sendRequest method params ?t)) \<noteq> written ?t"
      by (simp add: run_def)
    then have "serverReady ?t"
      by (auto simp: sendRequest_def split: if_splits)
    from serverReady_run [OF this]
    show "\<exists>x. Data x \<in> set pre \<and> includesText x readyText"
      by (simp add: start_def init_def)
  qed
  have c: "(\<forall>x. Data x \<in> set evs \<longrightarrow> \<not> includesText x readyText) \<longrightarrow>
      written (run parse evs (start init)) = [] \<and>
      (startPromise (onStartTimeout (run parse evs (start init))) = Rejected ServerStartTimeout \<or>
       startPromise (onStartTimeout (run parse evs (start init))) = Rejected SpawnError) \<and>
      (SpawnFailed \<notin> set evs \<longrightarrow>
         startPromise (onStartTimeout (run parse evs (start init))) =
           Rejected ServerStartTimeout)"
  proof (intro impI)
    let ?t = "run parse evs (start init)"
    assume nr: "\<forall>x. Data x \<in> set evs \<longrightarrow> \<not> includesText x readyText"
    have "starting (start init)"
      by (simp add: starting_def start_def init_def)
    from starting_run [OF this nr] have st: "starting ?t" .
    have w: "written ?t = []" using st by (simp add: starting_def)
    have r: "startPromise (onStartTimeout ?t) = Rejected ServerStartTimeout \<or>
       startPromise (onStartTimeout ?t) = Rejected SpawnError"
      using st by (auto simp: starting_def onStartTimeout_def cleanup_def Let_def settle_def
                        split: if_splits)
    have s: "startPromise (onStartTimeout ?t) = Rejected ServerStartTimeout"
      if "SpawnFailed \<notin> set evs"
    proof -
      have "startTimer (start init) \<and> startPromise (start init) = Pending \<or>
            startPromise (start init) = Rejected ServerStartTimeout"
        by (simp add: start_def init_def)
      from spawn_ok_run [OF this nr that, of parse]
      show ?thesis
        by (auto simp: onStartTimeout_def cleanup_def Let_def settle_def)
    qed
    from w r s show "written ?t = [] \<and>
      (startPromise (onStartTimeout ?t) = Rejected ServerStartTimeout \<or>
       startPromise (onStartTimeout ?t) = Rejected SpawnError) \<and>
      (SpawnFailed \<notin> set evs \<longrightarrow> startPromise (onStartTimeout ?t) = Rejected ServerStartTimeout)"
      by blast
  qed
  from a b c show ?thesis by blast
qed



lemma sendAll_snoc:
  "sendAll (ms @ [(m, p)]) s = snd (sendRequest m p (sendAll ms s))"
  by (simp add: sendAll_def)

lemma sendAll_spec:
  assumes "inv s" "serverReady s" "server s"
  shows "inv (sendAll ms s) \<and> serverReady (sendAll ms s) \<and> server (sendAll ms s) \<and>
         length (calls (sendAll ms s)) = length (calls s) + length ms \<and>
         (\<forall>i < length ms.
            responseHandlers (sendAll ms s) (requestId s + 1 + int i) = Some (length (calls s) + i))"
proof (induction ms rule: rev_induct)
  case Nil
  show ?case using assms by (simp add: sendAll_def)
next
  case (snoc mp ms)
  obtain m p where mp: "mp = (m, p)" by (cases mp)
  let ?t = "sendAll ms s"
  from snoc have t: "inv ?t" "serverReady ?t" "server ?t"
    "length (calls ?t) = length (calls s) + length ms"
    and h: "\<And>i. i < length ms \<Longrightarrow>
       responseHandlers ?t (requestId s + 1 + int i) = Some (length (calls s) + i)"
    by auto
  have rid: "requestId ?t = requestId s + int (length ms)"
    using invD_requestId [OF t(1)] invD_requestId [OF assms(1)] t(4) by simp
  let ?u = "snd (sendRequest m p ?t)"
  have u: "sendAll (ms @ [mp]) s = ?u" by (simp add: mp sendAll_snoc)
  have eq: "serverReady ?u" "server ?u" "calls ?u = calls ?t @ [\<lparr> c_id = requestId ?t + 1,
      c_method = m, c_timer = True, c_promise = Pending \<rparr>]"
    "responseHandlers ?u = (responseHandlers ?t)(requestId ?t + 1 \<mapsto> length (calls ?t))"
    using t(2,3) by (simp_all add: sendRequest_ready)
  have "responseHandlers ?u (requestId s + 1 + int i) = Some (length (calls s) + i)"
    if "i < length (ms @ [mp])" for i
  proof (cases "i < length ms")
    case True
    then show ?thesis using h [OF True] by (simp add: eq rid)
  next
    case False
    then have "i = length ms" using that by simp
    then show ?thesis by (simp add: eq rid t(4))
  qed
  then show ?case
    using inv_sendRequest [OF t(1), of m p] by (simp add: u eq t(4))
qed

subsection \<open>The listener changes the table as the decoded messages do\<close>

lemma tableEq_refl [simp]: "tableEq s s"
  by (simp add: tableEq_def)

lemma tableEq_trans: "tableEq s t \<Longrightarrow> tableEq t u \<Longrightarrow> tableEq s u"
  by (simp add: tableEq_def)

lemma tableEq_dispatch: "tableEq s t \<Longrightarrow> tableEq (dispatch r s) (dispatch r t)"
  by (auto simp: tableEq_def dispatch_def handlerFor_def split: option.splits jsval.splits)

lemma tableEq_fold_dispatch:
  "tableEq s t \<Longrightarrow> tableEq (fold dispatch ms s) (fold dispatch ms t)"
  by (induction ms arbitrary: s t) (auto simp: tableEq_dispatch)

lemma tableEq_handleSegment:
  "tableEq s t \<Longrightarrow>
   tableEq (handleSegment parse seg s)
     (case decode parse seg of None \<Rightarrow> t | Some r \<Rightarrow> dispatch r t)"
proof (cases "decode parse seg")
  case None
  then show "tableEq s t \<Longrightarrow> ?thesis" by (simp add: handleSegment_def)
next
  case (Some r)
  assume "tableEq s t"
  then have "tableEq (s\<lparr> emitted := emitted s @ [seg] \<rparr>) t"
    by (simp add: tableEq_def)
  then show ?thesis
    using Some by (simp add: handleSegment_def tableEq_dispatch)
qed

lemma tableEq_fold_handleSegment:
  "tableEq s t \<Longrightarrow>
   tableEq (fold (handleSegment parse) segs s)
     (fold dispatch (List.map_filter (decode parse) segs) t)"
proof (induction segs arbitrary: s t)
  case Nil
  then show ?case by (simp add: List.map_filter_simps)
next
  case (Cons seg segs)
  from tableEq_handleSegment [OF Cons.prems, of parse seg]
  have "tableEq (handleSegment parse seg s)
     (case decode parse seg of None \<Rightarrow> t | Some r \<Rightarrow> dispatch r t)" .
  from Cons.IH [OF this] show ?case
    by (cases "decode parse seg") (simp_all add: List.map_filter_simps)
qed

lemma tableEq_processOutputBuffer:
  "tableEq (processOutputBuffer parse s)
     (fold dispatch (List.map_filter (decode parse) (butlast (splitNL (outputBuffer s)))) s)"
  unfolding processOutputBuffer_def Let_def
  by (rule tableEq_fold_handleSegment) (simp add: tableEq_def)

lemma tableEq_processOutputBuffer_idle:
  "newline \<notin> set (outputBuffer s) \<Longrightarrow> tableEq (processOutputBuffer parse s) s"
  using tableEq_processOutputBuffer [of parse s]
  by (simp add: splitNL_no_newline List.map_filter_simps)

lemma tableEq_onData:
  "tableEq (onData parse output s)
     (fold dispatch
        (List.map_filter (decode parse) (butlast (splitNL (outputBuffer s @ output)))) s)"
proof (cases "includesText output readyText")
  case False
  let ?s1 = "s\<lparr> outputBuffer := outputBuffer s @ output \<rparr>"
  have "tableEq ?s1 s" by (simp add: tableEq_def)
  from tableEq_trans [OF tableEq_processOutputBuffer [of parse ?s1] tableEq_fold_dispatch [OF this]]
  show ?thesis using False by (simp add: onData_def Let_def)
next
  case True
  let ?s1 = "s\<lparr> outputBuffer := outputBuffer s @ output, serverReady := True,
                 startTimer := False \<rparr>"
  let ?s3 = "processOutputBuffer parse ?s1"
  let ?s4 = "?s3\<lparr> startPromise := settle (Resolved Undefined) (startPromise ?s3) \<rparr>"
  have "tableEq ?s1 s" by (simp add: tableEq_def)
  from tableEq_trans [OF tableEq_processOutputBuffer [of parse ?s1] tableEq_fold_dispatch [OF this]]
  have a: "tableEq ?s3 (fold dispatch
        (List.map_filter (decode parse) (butlast (splitNL (outputBuffer s @ output)))) s)"
    by simp
  have b: "tableEq ?s4 ?s3" by (simp add: tableEq_def)
  have "newline \<notin> set (outputBuffer ?s4)"
    by (simp add: processOutputBuffer_outputBuffer last_splitNL_no_newline)
  from tableEq_processOutputBuffer_idle [OF this]
  have c: "tableEq (processOutputBuffer parse ?s4) ?s4" .
  have "onData parse output s = processOutputBuffer parse ?s4"
    using True by (simp add: onData_def Let_def)
  with tableEq_trans [OF c tableEq_trans [OF b a]] show ?thesis by simp
qed

lemma map_filter_append:
  "List.map_filter f (xs @ ys) = List.map_filter f xs @ List.map_filter f ys"
  by (simp add: List.map_filter_def)

lemma tableEq_fold_onData:
  "newline \<notin> set (outputBuffer s) \<Longrightarrow>
   tableEq (fold (onData parse) cs s)
     (fold dispatch
        (List.map_filter (decode parse) (butlast (splitNL (outputBuffer s @ concat cs)))) s)"
proof (induction cs arbitrary: s)
  case Nil
  then show ?case by (simp add: splitNL_no_newline List.map_filter_simps)
next
  case (Cons c cs)
  let ?s' = "onData parse c s"
  let ?m1 = "List.map_filter (decode parse) (butlast (splitNL (outputBuffer s @ c)))"
  let ?m2 = "List.map_filter (decode parse)
               (butlast (splitNL (last (splitNL (outputBuffer s @ c)) @ concat cs)))"
  have nl: "newline \<notin> set (outputBuffer ?s')"
    by (simp add: onData_outputBuffer last_splitNL_no_newline)
  have ih: "tableEq (fold (onData parse) cs ?s') (fold dispatch ?m2 ?s')"
    using Cons.IH [OF nl] by (simp add: onData_outputBuffer)
  have "tableEq (fold dispatch ?m2 ?s') (fold dispatch ?m2 (fold dispatch ?m1 s))"
    by (rule tableEq_fold_dispatch) (rule tableEq_onData)
  with ih have t: "tableEq (fold (onData parse) cs ?s') (fold dispatch (?m1 @ ?m2) s)"
    by (auto intro: tableEq_trans)
  have sp: "splitNL (outputBuffer s @ c @ concat cs) =
      butlast (splitNL (outputBuffer s @ c)) @
      splitNL (last (splitNL (outputBuffer s @ c)) @ concat cs)"
    using splitNL_append [of "outputBuffer s @ c" "concat cs"] by simp
  show ?case
    using t by (simp add: sp splitNL_nonempty butlast_append map_filter_append)
qed

lemma length_calls_fold_dispatch [simp]:
  "length (calls (fold dispatch rs s)) = length (calls s)"
  by (induction rs arbitrary: s) auto

lemma c_id_fold_dispatch [simp]:
  "c_id (calls (fold dispatch rs s) ! d) = c_id (calls s ! d)"
  by (induction rs arbitrary: s) auto

lemma dispatch_other_key:
  "getProp m ''id'' \<noteq> Some (JNum k) \<Longrightarrow>
   responseHandlers (dispatch m s) k = responseHandlers s k"
  using dispatch_cases [of m s] by auto

lemma deliver_any_order:
  assumes "inv s"
    and "responseHandlers s k = Some c \<or> settledAt c (Resolved r) s"
    and "getProp r ''id'' = Some (JNum k)"
    and "\<forall>m \<in> set ms. getProp m ''id'' = Some (JNum k) \<longrightarrow> m = r"
    and "r \<in> set ms \<or> settledAt c (Resolved r) s"
  shows "settledAt c (Resolved r) (fold dispatch ms s)"
  using assms
proof (induction ms arbitrary: s)
  case Nil
  then show ?case by simp
next
  case (Cons m ms)
  let ?s' = "dispatch m s"
  have inv': "inv ?s'" using Cons.prems(1) by (rule inv_dispatch)
  have rest: "\<forall>m \<in> set ms. getProp m ''id'' = Some (JNum k) \<longrightarrow> m = r"
    using Cons.prems(4) by simp
  show ?case
  proof (cases "settledAt c (Resolved r) s")
    case True
    then have "settledAt c (Resolved r) ?s'" by (rule settledAt_dispatch)
    with Cons.IH [OF inv' _ Cons.prems(3) rest] show ?thesis by simp
  next
    case False
    with Cons.prems(2) have h: "responseHandlers s k = Some c" by simp
    note hc = invD_handler [OF Cons.prems(1) h]
    show ?thesis
    proof (cases "getProp m ''id'' = Some (JNum k)")
      case True
      with Cons.prems(4) have mr: "m = r" by simp
      have k0: "k \<noteq> 0" using hc by simp
      have "?s' = s\<lparr> responseHandlers := (responseHandlers s)(k := None),
                      calls := fire c r (calls s) \<rparr>"
        using dispatch_fires [OF Cons.prems(3) k0 h] mr by simp
      then have "settledAt c (Resolved r) ?s'"
        using hc by (simp add: settledAt_def fire_pending)
      with Cons.IH [OF inv' _ Cons.prems(3) rest] show ?thesis by simp
    next
      case False
      then have "responseHandlers ?s' k = Some c"
        using h by (simp add: dispatch_other_key)
      moreover have "r \<in> set ms"
        using Cons.prems(3,5) False \<open>\<not> settledAt c (Resolved r) s\<close> by auto
      ultimately show ?thesis
        using Cons.IH [OF inv' _ Cons.prems(3) rest] by simp
    qed
  qed
qed

lemma buffer_step:
  "newline \<notin> set (outputBuffer s) \<Longrightarrow> newline \<notin> set (outputBuffer (step parse ev s))"
  by (cases ev)
     (auto simp: onData_outputBuffer last_splitNL_no_newline sendRequest_def onTimeout_def
        onStartTimeout_def onSpawnError_def cleanup_def Let_def)

lemma buffer_run:
  "newline \<notin> set (outputBuffer s) \<Longrightarrow> newline \<notin> set (outputBuffer (run parse evs s))"
  unfolding run_def by (induction evs arbitrary: s) (auto simp: buffer_step)

lemma buffer_reachable: "newline \<notin> set (outputBuffer (run parse evs (start init)))"
  by (rule buffer_run) (simp add: start_def init_def)

lemma outputBuffer_sendAll [simp]: "outputBuffer (sendAll ms s) = outputBuffer s"
proof (induction ms rule: rev_induct)
  case Nil
  show ?case by (simp add: sendAll_def)
next
  case (snoc mp ms)
  obtain m p where "mp = (m, p)" by (cases mp)
  then show ?case
    using snoc by (simp add: sendAll_snoc sendRequest_def Let_def)
qed

text \<open>
  Claim C2.  Take a started client in any reachable state in which it is ready, and
  issue the calls \<open>ms\<close> without awaiting any of them.  Let the worker's output, as the
  client decodes it from the chunks \<open>cs\<close>, consist of the lines \<open>ls\<close> in any order,
  cut into chunks in any way, where for every call some line decodes to \<open>resp i\<close>, a
  response bearing the identifier the call allocated, and no line decodes to another
  message with that identifier; the other lines may be anything (log lines, responses
  to other calls, repeated responses).  Then the listener resolves the promise of the
  \<open>i\<close>-th call with exactly \<open>resp i\<close>.  Moreover, in every reachable state a resolved
  promise holds a response whose \<^verbatim>\<open>id\<close> is the identifier its call allocated.
\<close>

theorem responses_matched_by_id:
  assumes "s = run parse evs (start init)" and "serverReady s" and "server s"
    and "\<forall>i < length ms. getProp (resp i) ''id'' = Some (JNum (requestId s + 1 + int i))"
    and "\<forall>l \<in> set ls. newline \<notin> set l" and "newline \<notin> set rest"
    and "outputBuffer s @ concat (map toStringUtf8 cs) =
           concat (map (\<lambda>l. l @ [newline]) ls) @ rest"
    and "\<forall>i < length ms. \<exists>l \<in> set ls. decode parse l = Some (resp i)"
    and "\<forall>l \<in> set ls. \<forall>i < length ms. \<forall>m.
           decode parse l = Some m \<and>
           getProp m ''id'' = Some (JNum (requestId s + 1 + int i)) \<longrightarrow> m = resp i"
  shows "(\<forall>i < length ms.
            c_id (calls (fold (onBytes parse) cs (sendAll ms s)) ! (length (calls s) + i)) =
              requestId s + 1 + int i \<and>
            c_promise (calls (fold (onBytes parse) cs (sendAll ms s)) ! (length (calls s) + i)) =
              Resolved (resp i)) \<and>
         (\<forall>c r. c < length (calls s) \<and> c_promise (calls s ! c) = Resolved r \<longrightarrow>
            getProp r ''id'' = Some (JNum (c_id (calls s ! c))))"
proof -
  have inv: "inv s" using assms(1) by (simp add: inv_reachable)
  have nl: "newline \<notin> set (outputBuffer s)" using assms(1) by (simp add: buffer_reachable)
  let ?s1 = "sendAll ms s"
  let ?msgs = "List.map_filter (decode parse) ls"
  let ?s2 = "fold (onBytes parse) cs ?s1"
  note sp = sendAll_spec [OF inv assms(2,3), of ms]
  have inv1: "inv ?s1" using sp by simp
  have split: "splitNL (outputBuffer s @ concat (map toStringUtf8 cs)) = ls @ [rest]"
    using assms(5,6,7) by (simp add: splitNL_frames)
  have "tableEq ?s2 (fold dispatch ?msgs ?s1)"
    using tableEq_fold_onData [of ?s1 parse "map toStringUtf8 cs"] nl
    by (simp add: fold_onBytes split)
  then have calls: "calls ?s2 = calls (fold dispatch ?msgs ?s1)"
    by (simp add: tableEq_def)
  have msgs: "set ?msgs = {m. \<exists>l \<in> set ls. decode parse l = Some m}"
    by (force simp: List.map_filter_def image_iff)
  have a: "c_id (calls ?s2 ! (length (calls s) + i)) = requestId s + 1 + int i \<and>
           c_promise (calls ?s2 ! (length (calls s) + i)) = Resolved (resp i)"
    if i: "i < length ms" for i
  proof -
    let ?c = "length (calls s) + i"
    let ?k = "requestId s + 1 + int i"
    have c: "?c < length (calls ?s1)" using sp i by simp
    have h: "responseHandlers ?s1 ?k = Some ?c" using sp i by simp
    have rid: "getProp (resp i) ''id'' = Some (JNum ?k)" using assms(4) i by simp
    have own: "\<forall>m \<in> set ?msgs. getProp m ''id'' = Some (JNum ?k) \<longrightarrow> m = resp i"
      using assms(9) i by (auto simp: msgs)
    have present: "resp i \<in> set ?msgs"
      using assms(8) i by (auto simp: msgs)
    have "settledAt ?c (Resolved (resp i)) (fold dispatch ?msgs ?s1)"
      by (rule deliver_any_order [OF inv1 _ rid own]) (simp_all add: h present)
    then have p: "c_promise (calls ?s2 ! ?c) = Resolved (resp i)"
      by (simp add: settledAt_def calls)
    from invD_call [OF inv1 c] invD_requestId [OF inv]
    have "c_id (calls ?s1 ! ?c) = ?k" by simp
    then have "c_id (calls ?s2 ! ?c) = ?k" by (simp add: calls)
    with p show ?thesis by simp
  qed
  have b: "\<forall>c r. c < length (calls s) \<and> c_promise (calls s ! c) = Resolved r \<longrightarrow>
            getProp r ''id'' = Some (JNum (c_id (calls s ! c)))"
    using invD_call [OF inv] by auto
  from a b show ?thesis by blast
qed

section \<open>Worked sessions\<close>

lemmas client_eval =
  run_def onData_def processOutputBuffer_def handleSegment_def decode_def Let_def
  sendRequest_def start_def init_def readyChunk_def readyText_def trim_eval
  newline_def dispatch_def handlerFor_def fire_def settle_def
  cleanup_def onTimeout_def onStartTimeout_def onSpawnError_def

lemma readySession_eq:
  "readySession =
     \<lparr> server = True, requestId = 0, responseHandlers = Map.empty, serverReady = True,
       outputBuffer = [], startTimer = False, startPromise = Resolved Undefined,
       calls = [], written = [], emitted = [] \<rparr>"
  by (simp add: readySession_def client_eval)

lemma sampleSession_eq:
  "sampleSession =
     \<lparr> server = True, requestId = 3,
       responseHandlers = [1 \<mapsto> 0, 2 \<mapsto> 1, 3 \<mapsto> 2], serverReady = True,
       outputBuffer = [], startTimer = False, startPromise = Resolved Undefined,
       calls = [\<lparr> c_id = 1, c_method = ''initialize'', c_timer = True, c_promise = Pending \<rparr>,
                \<lparr> c_id = 2, c_method = ''tools/list'', c_timer = True, c_promise = Pending \<rparr>,
                \<lparr> c_id = 3, c_method = ''tools/call'', c_timer = True, c_promise = Pending \<rparr>],
       written = [\<lparr> r_id = 1, r_method = ''initialize'', r_params = JObj [] \<rparr>,
                  \<lparr> r_id = 2, r_method = ''tools/list'', r_params = JObj [] \<rparr>,
                  \<lparr> r_id = 3, r_method = ''tools/call'',
                    r_params = JObj [(''name'', JStr ''list-nodes'')] \<rparr>],
       emitted = [] \<rparr>"
  by (simp add: sampleSession_def client_eval eval_nat_numeral)

text \<open>
  With three calls outstanding, each of them is still pending after \<^verbatim>\<open>cleanup()\<close>: none
  has been failed.
\<close>

theorem cleanup_counterexample:
  "server sampleSession \<and>
   c_promise (calls sampleSession ! 0) = Pending \<and>
   c_promise (calls sampleSession ! 1) = Pending \<and>
   c_promise (calls sampleSession ! 2) = Pending \<and>
   c_promise (calls (cleanup sampleSession) ! 0) = Pending \<and>
   c_promise (calls (cleanup sampleSession) ! 1) = Pending \<and>
   c_promise (calls (cleanup sampleSession) ! 2) = Pending"
  by (simp add: sampleSession_eq cleanup_def)

theorem cleanup_clears_table_witness:
  "server sampleSession \<and>
   responseHandlers (cleanup sampleSession) = Map.empty \<and>
   calls (cleanup sampleSession) = calls sampleSession \<and>
   dispatch (sampleResp 0) (cleanup sampleSession) = cleanup sampleSession \<and>
   1 < length (calls sampleSession) \<and>
   c_promise (calls sampleSession ! 1) = Pending \<and>
   c_timer (calls (cleanup sampleSession) ! 1) \<and>
   c_promise (calls (onTimeout 1 (cleanup sampleSession)) ! 1) =
     Rejected (RequestTimedOut ''tools/list'')"
proof -
  have a: "server sampleSession" by (simp add: sampleSession_eq)
  have b: "1 < length (calls sampleSession)" "c_promise (calls sampleSession ! 1) = Pending"
    "c_method (calls sampleSession ! 1) = ''tools/list''"
    "c_timer (calls sampleSession ! 1)"
    by (simp_all add: sampleSession_eq)
  show ?thesis
    using a b cleanup_clears_table [OF sampleSession_def a, of "sampleResp 0"] by simp
qed

theorem timeout_then_late_response_witness:
  "1 < length (calls sampleSession) \<and> c_timer (calls sampleSession ! 1) \<and>
   getProp (sampleResp 1) ''id'' = Some (JNum (c_id (calls sampleSession ! 1))) \<and>
   c_promise (calls (onTimeout 1 sampleSession) ! 1) = Rejected (RequestTimedOut ''tools/list'') \<and>
   responseHandlers (onTimeout 1 sampleSession) 2 = None \<and>
   dispatch (sampleResp 1) (run sampleParse [Data (idFrame 1 @ [newline]), Cleanup] (onTimeout 1 sampleSession)) =
     run sampleParse [Data (idFrame 1 @ [newline]), Cleanup] (onTimeout 1 sampleSession) \<and>
   c_promise (calls (run sampleParse [Data (idFrame 1 @ [newline]), Cleanup] (onTimeout 1 sampleSession)) ! 1) =
     Rejected (RequestTimedOut ''tools/list'')"
proof -
  have a: "1 < length (calls sampleSession)" "c_timer (calls sampleSession ! 1)"
    by (simp_all add: sampleSession_eq)
  have b: "getProp (sampleResp 1) ''id'' = Some (JNum (c_id (calls sampleSession ! 1)))"
    by (simp add: sampleSession_eq sampleResp_def)
  have c: "c_method (calls sampleSession ! 1) = ''tools/list''" "c_id (calls sampleSession ! 1) = 2"
    by (simp_all add: sampleSession_eq)
  show ?thesis
    using a b c timeout_then_late_response [OF sampleSession_def a b,
        of "[Data (idFrame 1 @ [newline]), Cleanup]"]
    by simp
qed



theorem no_request_before_ready_witness:
  "\<not> serverReady (start init) \<and>
   sendRequest ''initialize'' (JObj []) (start init) = (Inl ServerNotReady, start init) \<and>
   written (run sampleParse ([Data readyChunk] @ [Send ''initialize'' (JObj [])]) (start init)) \<noteq>
     written (run sampleParse [Data readyChunk] (start init)) \<and>
   Data readyChunk \<in> set [Data readyChunk] \<and> includesText readyChunk readyText \<and>
   \<not> includesText ''Starting kubernetes-mcp-server v1.0.0'' readyText \<and>
   SpawnFailed \<notin> set [Data ''Starting kubernetes-mcp-server v1.0.0''] \<and>
   written (run sampleParse [Data ''Starting kubernetes-mcp-server v1.0.0''] (start init)) = [] \<and>
   startPromise (onStartTimeout
       (run sampleParse [Data ''Starting kubernetes-mcp-server v1.0.0''] (start init))) =
     Rejected ServerStartTimeout"
proof -
  have a: "\<not> serverReady (start init)"
    by (simp add: start_def init_def)
  have b: "written (run sampleParse ([Data readyChunk] @ [Send ''initialize'' (JObj [])]) (start init)) \<noteq>
     written (run sampleParse [Data readyChunk] (start init))"
    by (simp add: client_eval)
  have c: "includesText readyChunk readyText"
    by (simp add: readyChunk_def readyText_def startsWith_def)
  have d: "\<not> includesText ''Starting kubernetes-mcp-server v1.0.0'' readyText"
    by (simp add: readyText_def startsWith_def)
  then have e: "\<forall>x. Data x \<in> set [Data ''Starting kubernetes-mcp-server v1.0.0''] \<longrightarrow>
                 \<not> includesText x readyText"
    by simp
  note th = no_request_before_ready [of "start init" "''initialize''" "JObj []" sampleParse
      "[Data readyChunk]" "[Data ''Starting kubernetes-mcp-server v1.0.0'']"]
  show ?thesis
    using a b c d e th by simp
qed

theorem id_filter_witness:
  "dispatch (sampleResp 0) sampleSession \<noteq> sampleSession \<and>
   getProp (sampleResp 0) ''id'' = Some (JNum 1) \<and> truthy (JNum 1) \<and>
   handlerFor sampleSession (JNum 1) \<noteq> None \<and>
   getProp (JObj [(''id'', JNum 0)]) ''id'' = Some (JNum 0) \<and>
   dispatch (JObj [(''id'', JNum 0)]) sampleSession = sampleSession \<and>
   getProp (JObj [(''result'', JObj [])]) ''id'' = Some Undefined \<and>
   dispatch (JObj [(''result'', JObj [])]) sampleSession = sampleSession \<and>
   2 < length (written sampleSession) \<and> r_id (written sampleSession ! 2) = 3 \<and>
   responseHandlers sampleSession 1 = Some 0 \<and>
   c_promise (calls (dispatch (sampleResp 0) sampleSession) ! 0) = Resolved (sampleResp 0)"
proof -
  have a: "getProp (sampleResp 0) ''id'' = Some (JNum 1)"
    "getProp (JObj [(''id'', JNum 0)]) ''id'' = Some (JNum 0)"
    "getProp (JObj [(''result'', JObj [])]) ''id'' = Some Undefined"
    by (simp_all add: sampleResp_def)
  have b: "2 < length (written sampleSession)" "responseHandlers sampleSession 1 = Some 0"
    "handlerFor sampleSession (JNum 1) \<noteq> None"
    by (simp_all add: sampleSession_eq handlerFor_def)
  have c: "c_promise (calls sampleSession ! 0) = Pending"
    by (simp add: sampleSession_eq)
  note t1 = id_filter [of "sampleResp 0" sampleSession sampleParse
      "[Data readyChunk, Send ''initialize'' (JObj []), Send ''tools/list'' (JObj []),
        Send ''tools/call'' (JObj [(''name'', JStr ''list-nodes'')])]",
      folded sampleSession_def]
  note t2 = id_filter [of "JObj [(''id'', JNum 0)]" sampleSession sampleParse "[]"]
  note t3 = id_filter [of "JObj [(''result'', JObj [])]" sampleSession sampleParse "[]"]
  have d: "c_promise (calls (dispatch (sampleResp 0) sampleSession) ! 0) = Resolved (sampleResp 0)"
    using t1 a b by blast
  then have e: "dispatch (sampleResp 0) sampleSession \<noteq> sampleSession"
    using c by auto
  have f: "r_id (written sampleSession ! 2) = 3"
    using t1 b by auto
  show ?thesis
    using a b d e f t2 t3 by simp
qed

lemma sample_decode:
  "decode sampleParse (idFrame 1) = Some (sampleResp 0)"
  "decode sampleParse (idFrame 2) = Some (sampleResp 1)"
  "decode sampleParse (idFrame 3) = Some (sampleResp 2)"
  "decode sampleParse ''Kubernetes client initialized'' = None"
  "decode sampleParse ''{not json}'' = None"
  by (simp_all add: decode_def sampleParse_def sampleResp_def idFrame_def trim_eval dq_def)

lemma shuffled_text:
  "outputBuffer readySession @ concat (map toStringUtf8 shuffledChunks) =
     concat (map (\<lambda>l. l @ [newline]) shuffledLines) @ []"
  by (simp add: readySession_eq shuffledChunks_def shuffledLines_def idFrame_def utf8_eval
        dq_def newline_def)

theorem responses_matched_by_id_witness:
  "serverReady readySession \<and> server readySession \<and>
   getProp (sampleResp 0) ''id'' = Some (JNum (requestId readySession + 1 + 0)) \<and>
   getProp (sampleResp 1) ''id'' = Some (JNum (requestId readySession + 1 + 1)) \<and>
   getProp (sampleResp 2) ''id'' = Some (JNum (requestId readySession + 1 + 2)) \<and>
   outputBuffer readySession @ concat (map toStringUtf8 shuffledChunks) =
     concat (map (\<lambda>l. l @ [newline]) shuffledLines) @ [] \<and>
   decode sampleParse (shuffledLines ! 0) = None \<and>
   decode sampleParse (shuffledLines ! 1) = Some (sampleResp 2) \<and>
   decode sampleParse (shuffledLines ! 2) = Some (sampleResp 0) \<and>
   decode sampleParse (shuffledLines ! 3) = None \<and>
   decode sampleParse (shuffledLines ! 4) = Some (sampleResp 1) \<and>
   c_promise (calls (fold (onBytes sampleParse) shuffledChunks
       (sendAll [(''initialize'', JObj []), (''tools/list'', JObj []), (''tools/list'', JObj [])]
          readySession)) ! 0) = Resolved (sampleResp 0) \<and>
   c_promise (calls (fold (onBytes sampleParse) shuffledChunks
       (sendAll [(''initialize'', JObj []), (''tools/list'', JObj []), (''tools/list'', JObj [])]
          readySession)) ! 1) = Resolved (sampleResp 1) \<and>
   c_promise (calls (fold (onBytes sampleParse) shuffledChunks
       (sendAll [(''initialize'', JObj []), (''tools/list'', JObj []), (''tools/list'', JObj [])]
          readySession)) ! 2) = Resolved (sampleResp 2)"
proof -
  let ?ms = "[(''initialize'', JObj []), (''tools/list'', JObj []), (''tools/list'', JObj [])]"
  have a: "serverReady readySession" "server readySession"
    by (simp_all add: readySession_eq)
  have e: "length (calls readySession) = 0" "requestId readySession = 0"
    by (simp_all add: readySession_eq)
  have b: "\<forall>i < length ?ms.
             getProp (sampleResp i) ''id'' = Some (JNum (requestId readySession + 1 + int i))"
    by (simp add: sampleResp_def e)
  have c: "\<forall>l \<in> set shuffledLines. newline \<notin> set l"
    by (simp add: shuffledLines_def idFrame_def dq_def newline_def)
  have d: "newline \<notin> set []"
    by simp
  have mem: "idFrame 1 \<in> set shuffledLines" "idFrame 2 \<in> set shuffledLines"
    "idFrame 3 \<in> set shuffledLines"
    by (simp_all add: shuffledLines_def)
  have f: "\<forall>i < length ?ms. \<exists>l \<in> set shuffledLines. decode sampleParse l = Some (sampleResp i)"
  proof (intro allI impI)
    fix i assume "i < length ?ms"
    then consider "i = 0" | "i = 1" | "i = 2" by fastforce
    then show "\<exists>l \<in> set shuffledLines. decode sampleParse l = Some (sampleResp i)"
    proof cases
      case 1
      then show ?thesis using sample_decode(1) mem(1) by blast
    next
      case 2
      then show ?thesis using sample_decode(2) mem(2) by blast
    next
      case 3
      then show ?thesis using sample_decode(3) mem(3) by blast
    qed
  qed
  have g: "\<forall>l \<in> set shuffledLines. \<forall>i < length ?ms. \<forall>m.
           decode sampleParse l = Some m \<and>
           getProp m ''id'' = Some (JNum (requestId readySession + 1 + int i)) \<longrightarrow>
           m = sampleResp i"
    using sample_decode by (auto simp: shuffledLines_def sampleResp_def e)
  note th = responses_matched_by_id [OF readySession_def a b c d shuffled_text f g]
  have h: "\<forall>i < 3. c_promise (calls (fold (onBytes sampleParse) shuffledChunks
       (sendAll ?ms readySession)) ! i) = Resolved (sampleResp i)"
    using th e by simp
  have i: "decode sampleParse (shuffledLines ! 0) = None"
    "decode sampleParse (shuffledLines ! 1) = Some (sampleResp 2)"
    "decode sampleParse (shuffledLines ! 2) = Some (sampleResp 0)"
    "decode sampleParse (shuffledLines ! 3) = None"
    "decode sampleParse (shuffledLines ! 4) = Some (sampleResp 1)"
    using sample_decode by (simp_all add: shuffledLines_def)
  show ?thesis
    using a b h i shuffled_text by (simp add: e)
qed

section \<open>Properties of the worker\<close>

lemma getProp_defined: "v \<noteq> Undefined \<Longrightarrow> v \<noteq> Null \<Longrightarrow> \<exists>x. getProp v k = Some x"
  by (cases v) (auto split: option.splits)


lemma getProp_newError [simp]: "getProp (newError msg) ''message'' = Some (JStr msg)"
  by (simp add: newError_def)







text \<open>
  A call of the unregistered tool \<^verbatim>\<open>missing-tool\<close> is answered with a returned value,
  flagged \<^verbatim>\<open>isError\<close>, not with an exception.
\<close>

theorem unknown_tool_counterexample:
  "toolsCall sampleCluster ''default'' sampleStringify
     (callRequest (JStr ''missing-tool'') (JObj [])) =
   Inr \<lparr> content = [\<lparr> item_type = ''text'', item_text = ''Error: Unknown tool: missing-tool'' \<rparr>],
         isError = True \<rparr>"
  by (simp add: toolsCall_def callRequest_def switchTool_def errorResult_def)

text \<open>
  Claim C3, as the code has it.  For a request whose tool name is a string other than
  \<^verbatim>\<open>list-pods\<close>, \<^verbatim>\<open>get-pod\<close> and \<^verbatim>\<open>list-nodes\<close>, the \<^verbatim>\<open>tools/call\<close> handler returns
  a value: one text item \<^verbatim>\<open>Error: Unknown tool: <name>\<close> with \<^verbatim>\<open>isError\<close> true.  The
  \<^verbatim>\<open>throw\<close> of the \<^verbatim>\<open>default\<close> case is caught by the handler's own \<^verbatim>\<open>catch\<close>.
\<close>

theorem unknown_tool_is_flagged_result:
  assumes "getProp request ''params'' = Some params"
    and "getProp params ''name'' = Some (JStr n)"
    and "getProp params ''arguments'' = Some args"
    and "n \<noteq> ''list-pods''" and "n \<noteq> ''get-pod''" and "n \<noteq> ''list-nodes''"
  shows "toolsCall k ns stringify request =
           Inr \<lparr> content = [\<lparr> item_type = ''text'',
                               item_text = ''Error: Unknown tool: '' @ n \<rparr>],
                 isError = True \<rparr>"
  using assms by (simp add: toolsCall_def switchTool_def errorResult_def)

theorem unknown_tool_is_flagged_result_witness:
  "getProp (callRequest (JStr ''invalid-tool'') Undefined) ''params'' =
     Some (JObj [(''name'', JStr ''invalid-tool''), (''arguments'', Undefined)]) \<and>
   getProp (JObj [(''name'', JStr ''invalid-tool''), (''arguments'', Undefined)]) ''name'' =
     Some (JStr ''invalid-tool'') \<and>
   getProp (JObj [(''name'', JStr ''invalid-tool''), (''arguments'', Undefined)]) ''arguments'' =
     Some Undefined \<and>
   ''invalid-tool'' \<noteq> ''list-pods'' \<and> ''invalid-tool'' \<noteq> ''get-pod'' \<and>
   ''invalid-tool'' \<noteq> ''list-nodes'' \<and>
   toolsCall sampleCluster ''default'' sampleStringify
       (callRequest (JStr ''invalid-tool'') Undefined) =
     Inr \<lparr> content = [\<lparr> item_type = ''text'',
                         item_text = ''Error: Unknown tool: invalid-tool'' \<rparr>],
           isError = True \<rparr>"
proof -
  let ?params = "JObj [(''name'', JStr ''invalid-tool''), (''arguments'', Undefined)]"
  have a: "getProp (callRequest (JStr ''invalid-tool'') Undefined) ''params'' = Some ?params"
    by (simp add: callRequest_def)
  have b: "getProp ?params ''name'' = Some (JStr ''invalid-tool'')"
    "getProp ?params ''arguments'' = Some Undefined"
    by simp_all
  have c: "''invalid-tool'' \<noteq> ''list-pods''" "''invalid-tool'' \<noteq> ''get-pod''"
    "''invalid-tool'' \<noteq> ''list-nodes''"
    by simp_all
  show ?thesis
    using a b c
      unknown_tool_is_flagged_result [OF a b c, of sampleCluster "''default''" sampleStringify]
    by simp
qed

text \<open>
  A call of \<^verbatim>\<open>get-pod\<close> without \<^verbatim>\<open>name\<close> is answered with a returned value, flagged
  \<^verbatim>\<open>isError\<close>, whose text is the message thrown by \<^verbatim>\<open>getPodHandler\<close>.
\<close>

theorem missing_name_counterexample:
  "toolsCall sampleCluster ''default'' sampleStringify (callRequest (JStr ''get-pod'') (JObj [])) =
   Inr \<lparr> content = [\<lparr> item_type = ''text'', item_text = ''Error: Pod name is required'' \<rparr>],
         isError = True \<rparr>"
  by (simp add: toolsCall_def callRequest_def switchTool_def errorResult_def getPodHandler_def
        handlerInput_def orElse_def)

text \<open>
  Claim C7, as the code has it.  The \<^verbatim>\<open>tools/call\<close> handler validates nothing.  For
  \<^verbatim>\<open>get-pod\<close> with a missing (or falsy) \<^verbatim>\<open>name\<close>, \<^verbatim>\<open>getPodHandler\<close> is invoked and throws
  \<^verbatim>\<open>Pod name is required\<close> whatever the cluster client would do, and the \<^verbatim>\<open>tools/call\<close>
  handler returns one text item \<^verbatim>\<open>Error: Pod name is required\<close> with \<^verbatim>\<open>isError\<close> true.
\<close>

theorem missing_name_is_flagged_result:
  assumes "getProp request ''params'' = Some params"
    and "getProp params ''name'' = Some (JStr ''get-pod'')"
    and "getProp params ''arguments'' = Some args"
    and "getProp (handlerInput args) ''name'' = Some podName"
    and "\<not> truthy podName"
  shows "getPodHandler k ns (handlerInput args) = Inl (newError ''Pod name is required'') \<and>
         switchTool k ns (JStr ''get-pod'') args = Some (getPodHandler k ns (handlerInput args)) \<and>
         toolsCall k ns stringify request =
           Inr \<lparr> content = [\<lparr> item_type = ''text'', item_text = ''Error: Pod name is required'' \<rparr>],
                 isError = True \<rparr>"
proof -
  have "handlerInput args \<noteq> Undefined" "handlerInput args \<noteq> Null"
    by (auto simp: handlerInput_def orElse_def)
  then obtain n where n: "getProp (handlerInput args) ''namespace'' = Some n"
    using getProp_defined by blast
  have h: "getPodHandler k ns (handlerInput args) = Inl (newError ''Pod name is required'')"
    using assms(4,5) n by (simp add: getPodHandler_def)
  have s: "switchTool k ns (JStr ''get-pod'') args = Some (getPodHandler k ns (handlerInput args))"
    by (simp add: switchTool_def)
  have "toolsCall k ns stringify request = Inr (errorResult (''Error: Pod name is required''))"
    using assms(1-3) by (simp add: toolsCall_def s h)
  with h s show ?thesis by (simp add: errorResult_def)
qed

theorem missing_name_is_flagged_result_witness:
  "getProp (callRequest (JStr ''get-pod'') (JObj [(''namespace'', JStr ''kube-system'')])) ''params'' =
     Some (JObj [(''name'', JStr ''get-pod''),
                 (''arguments'', JObj [(''namespace'', JStr ''kube-system'')])]) \<and>
   getProp (JObj [(''name'', JStr ''get-pod''),
                 (''arguments'', JObj [(''namespace'', JStr ''kube-system'')])]) ''name'' =
     Some (JStr ''get-pod'') \<and>
   getProp (JObj [(''name'', JStr ''get-pod''),
                 (''arguments'', JObj [(''namespace'', JStr ''kube-system'')])]) ''arguments'' =
     Some (JObj [(''namespace'', JStr ''kube-system'')]) \<and>
   getProp (handlerInput (JObj [(''namespace'', JStr ''kube-system'')])) ''name'' = Some Undefined \<and>
   \<not> truthy Undefined \<and>
   getPodHandler sampleCluster ''default'' (handlerInput (JObj [(''namespace'', JStr ''kube-system'')])) =
     Inl (newError ''Pod name is required'') \<and>
   toolsCall sampleCluster ''default'' sampleStringify
       (callRequest (JStr ''get-pod'') (JObj [(''namespace'', JStr ''kube-system'')])) =
     Inr \<lparr> content = [\<lparr> item_type = ''text'', item_text = ''Error: Pod name is required'' \<rparr>],
           isError = True \<rparr>"
proof -
  let ?args = "JObj [(''namespace'', JStr ''kube-system'')]"
  let ?params = "JObj [(''name'', JStr ''get-pod''), (''arguments'', ?args)]"
  have a: "getProp (callRequest (JStr ''get-pod'') ?args) ''params'' = Some ?params"
    by (simp add: callRequest_def)
  have b: "getProp ?params ''name'' = Some (JStr ''get-pod'')"
    "getProp ?params ''arguments'' = Some ?args"
    by simp_all
  have c: "getProp (handlerInput ?args) ''name'' = Some Undefined"
    by (simp add: handlerInput_def orElse_def)
  have d: "\<not> truthy Undefined"
    by simp
  show ?thesis
    using a b c d
      missing_name_is_flagged_result [OF a b c d, of sampleCluster "''default''" sampleStringify]
    by simp
qed

text \<open>
  For \<^verbatim>\<open>list-pods\<close> with the arguments \<^verbatim>\<open>{}\<close>, the handler is invoked with \<^verbatim>\<open>{}\<close>: it
  reads \<^verbatim>\<open>input.namespace\<close> as \<^verbatim>\<open>undefined\<close>.
\<close>

theorem default_namespace_counterexample:
  "switchTool sampleCluster ''default'' (JStr ''list-pods'') (JObj []) =
     Some (listPodsHandler sampleCluster ''default'' (JObj [])) \<and>
   getProp (JObj []) ''namespace'' = Some Undefined"
  by (simp add: switchTool_def handlerInput_def orElse_def)

text \<open>
  Claim C8, as the code has it.  In \<^verbatim>\<open>src/server.ts\<close> the \<^verbatim>\<open>tools/call\<close> handler
  validates and substitutes nothing: for \<^verbatim>\<open>list-pods\<close> and \<^verbatim>\<open>get-pod\<close> it invokes the
  handler on \<^verbatim>\<open>args || {}\<close>, the arguments as they came, or \<^verbatim>\<open>{}\<close> when they are absent
  or falsy, in which case the handler reads \<^verbatim>\<open>namespace\<close> as \<^verbatim>\<open>undefined\<close>.  The handler
  itself falls back: with \<open>n\<close> the namespace it reads, the cluster client is called
  with \<^verbatim>\<open>n || config.kubernetes.namespace\<close>, and its outcome is what the call returns;
  the default is never empty.  In the second server the default is declared in the
  tool's input shape, and the callback has no fallback of its own: the cluster client
  is called with the namespace of the input the callback receives, whatever it is.
\<close>

theorem default_namespace_by_handler:
  assumes "getProp (handlerInput args) ''namespace'' = Some n"
  shows
    "handlerInput args = (if truthy args then args else JObj []) \<and>
     (\<not> truthy args \<longrightarrow> n = Undefined) \<and>
     switchTool k ns (JStr ''list-pods'') args =
       Some (listPodsHandler k ns (handlerInput args)) \<and>
     switchTool k ns (JStr ''get-pod'') args =
       Some (getPodHandler k ns (handlerInput args)) \<and>
     (listPods k (orElse n (JStr ns)) = Inr pods \<and> stringify pods = Inr t \<longrightarrow>
        toolsCall k ns stringify (callRequest (JStr ''list-pods'') args) =
          Inr (textResult t)) \<and>
     (listPods k (orElse n (JStr ns)) = Inl e \<and> getProp e ''message'' = Some (JStr msg) \<longrightarrow>
        toolsCall k ns stringify (callRequest (JStr ''list-pods'') args) =
          Inr (errorResult (''Error: Failed to list pods: '' @ msg))) \<and>
     (getProp (handlerInput args) ''name'' = Some podName \<and> truthy podName \<and>
      readPod k podName (orElse n (JStr ns)) = Inr pod \<and> stringify pod = Inr t \<longrightarrow>
        toolsCall k ns stringify (callRequest (JStr ''get-pod'') args) =
          Inr (textResult t)) \<and>
     (\<not> truthy n \<longrightarrow> orElse n (JStr (configNamespace env)) = JStr (configNamespace env)) \<and>
     truthy (JStr (configNamespace env)) \<and>
     (getProp input ''namespace'' = Some n2 \<and> listPods k n2 = Inr pods \<and>
      stringify pods = Inr t \<longrightarrow>
        listPodsTool k stringify input = Inr (textResult t)) \<and>
     (getProp input ''namespace'' = Some n2 \<and> listPods k n2 = Inl e \<and>
      getProp e ''message'' = Some (JStr msg) \<longrightarrow>
        listPodsTool k stringify input =
          Inr (errorResult (''Error listing pods: '' @ msg)))"
proof -
  have c1: "handlerInput args = (if truthy args then args else JObj [])"
    by (simp add: handlerInput_def orElse_def)
  have c2: "\<not> truthy args \<longrightarrow> n = Undefined"
    using assms by (auto simp: handlerInput_def orElse_def)
  have c3: "switchTool k ns (JStr ''list-pods'') args =
       Some (listPodsHandler k ns (handlerInput args))"
    "switchTool k ns (JStr ''get-pod'') args = Some (getPodHandler k ns (handlerInput args))"
    by (simp_all add: switchTool_def)
  have req: "getProp (callRequest name args) ''params'' =
      Some (JObj [(''name'', name), (''arguments'', args)])" for name
    by (simp add: callRequest_def)
  have c5: "toolsCall k ns stringify (callRequest (JStr ''list-pods'') args) =
          Inr (textResult t)"
    if "listPods k (orElse n (JStr ns)) = Inr pods" "stringify pods = Inr t"
    using that assms by (simp add: toolsCall_def req c3 listPodsHandler_def)
  have c6: "toolsCall k ns stringify (callRequest (JStr ''list-pods'') args) =
          Inr (errorResult (''Error: Failed to list pods: '' @ msg))"
    if "listPods k (orElse n (JStr ns)) = Inl e" "getProp e ''message'' = Some (JStr msg)"
    using that assms by (simp add: toolsCall_def req c3 listPodsHandler_def rethrow_def)
  have c7: "toolsCall k ns stringify (callRequest (JStr ''get-pod'') args) =
          Inr (textResult t)"
    if "getProp (handlerInput args) ''name'' = Some podName" "truthy podName"
      "readPod k podName (orElse n (JStr ns)) = Inr pod" "stringify pod = Inr t"
    using that assms by (simp add: toolsCall_def req c3 getPodHandler_def)
  have c8: "\<not> truthy n \<longrightarrow> orElse n (JStr (configNamespace env)) = JStr (configNamespace env)"
    by (simp add: orElse_def)
  have c9: "truthy (JStr (configNamespace env))"
    by (simp add: configNamespace_def split: option.splits)
  have c10: "listPodsTool k stringify input = Inr (textResult t)"
    if "getProp input ''namespace'' = Some n2" "listPods k n2 = Inr pods" "stringify pods = Inr t"
    using that by (simp add: listPodsTool_def)
  have c11: "listPodsTool k stringify input =
          Inr (errorResult (''Error listing pods: '' @ msg))"
    if "getProp input ''namespace'' = Some n2" "listPods k n2 = Inl e"
      "getProp e ''message'' = Some (JStr msg)"
    using that by (simp add: listPodsTool_def)
  from c1 c2 c3 c5 c6 c7 c8 c9 c10 c11 show ?thesis by blast
qed

theorem default_namespace_by_handler_witness:
  "getProp (handlerInput Undefined) ''namespace'' = Some Undefined \<and>
   \<not> truthy Undefined \<and> handlerInput Undefined = JObj [] \<and>
   listPods pickyCluster (orElse Undefined (JStr ''default'')) = Inl (newError ''Forbidden'') \<and>
   getProp (newError ''Forbidden'') ''message'' = Some (JStr ''Forbidden'') \<and>
   toolsCall pickyCluster ''default'' sampleStringify (callRequest (JStr ''list-pods'') Undefined) =
     Inr (errorResult ''Error: Failed to list pods: Forbidden'') \<and>
   getProp (handlerInput podArgs) ''namespace'' = Some (JStr ''kube-system'') \<and>
   handlerInput podArgs = podArgs \<and>
   listPods pickyCluster (orElse (JStr ''kube-system'') (JStr ''default'')) =
     Inr (JObj [(''pods'', JArr [])]) \<and>
   sampleStringify (JObj [(''pods'', JArr [])]) = Inr ''[object Object]'' \<and>
   toolsCall pickyCluster ''default'' sampleStringify (callRequest (JStr ''list-pods'') podArgs) =
     Inr (textResult ''[object Object]'') \<and>
   getProp (handlerInput podArgs) ''name'' = Some (JStr ''coredns-1'') \<and>
   truthy (JStr ''coredns-1'') \<and>
   readPod pickyCluster (JStr ''coredns-1'') (orElse (JStr ''kube-system'') (JStr ''default'')) =
     Inr (JObj [(''pod'', JStr ''coredns-1'')]) \<and>
   toolsCall pickyCluster ''default'' sampleStringify (callRequest (JStr ''get-pod'') podArgs) =
     Inr (textResult ''[object Object]'') \<and>
   configNamespace None = ''default'' \<and>
   getProp (JObj [(''namespace'', JStr ''default'')]) ''namespace'' = Some (JStr ''default'') \<and>
   listPodsTool pickyCluster sampleStringify (JObj [(''namespace'', JStr ''default'')]) =
     Inr (errorResult ''Error listing pods: Forbidden'') \<and>
   getProp (JObj []) ''namespace'' = Some Undefined \<and>
   listPods pickyCluster Undefined = Inr (JObj [(''pods'', JArr [])]) \<and>
   listPodsTool pickyCluster sampleStringify (JObj []) = Inr (textResult ''[object Object]'')"
proof -
  have a: "getProp (handlerInput Undefined) ''namespace'' = Some Undefined"
    "handlerInput Undefined = JObj []"
    by (simp_all add: handlerInput_def orElse_def)
  have b: "getProp (handlerInput podArgs) ''namespace'' = Some (JStr ''kube-system'')"
    "getProp (handlerInput podArgs) ''name'' = Some (JStr ''coredns-1'')"
    "handlerInput podArgs = podArgs"
    by (simp_all add: handlerInput_def orElse_def podArgs_def)
  have c: "listPods pickyCluster (orElse Undefined (JStr ''default'')) = Inl (newError ''Forbidden'')"
    "listPods pickyCluster (orElse (JStr ''kube-system'') (JStr ''default'')) =
       Inr (JObj [(''pods'', JArr [])])"
    "readPod pickyCluster (JStr ''coredns-1'') (orElse (JStr ''kube-system'') (JStr ''default'')) =
       Inr (JObj [(''pod'', JStr ''coredns-1'')])"
    "listPods pickyCluster (JStr ''default'') = Inl (newError ''Forbidden'')"
    "listPods pickyCluster Undefined = Inr (JObj [(''pods'', JArr [])])"
    by (simp_all add: pickyCluster_def orElse_def)
  have d: "sampleStringify (JObj [(''pods'', JArr [])]) = Inr ''[object Object]''"
    "sampleStringify (JObj [(''pod'', JStr ''coredns-1'')]) = Inr ''[object Object]''"
    by (simp_all add: sampleStringify_def)
  have e: "getProp (newError ''Forbidden'') ''message'' = Some (JStr ''Forbidden'')"
    "getProp (JObj [(''namespace'', JStr ''default'')]) ''namespace'' = Some (JStr ''default'')"
    "getProp (JObj []) ''namespace'' = Some Undefined"
    "configNamespace None = ''default''"
    by (simp_all add: configNamespace_def)
  note t1 = default_namespace_by_handler [OF a(1),
      where k = pickyCluster and ns = "''default''" and stringify = sampleStringify
        and e = "newError ''Forbidden''" and msg = "''Forbidden''"
        and input = "JObj [(''namespace'', JStr ''default'')]" and ?n2.0 = "JStr ''default''"]
  note t2 = default_namespace_by_handler [OF b(1),
      where k = pickyCluster and ns = "''default''" and stringify = sampleStringify
        and pods = "JObj [(''pods'', JArr [])]" and t = "''[object Object]''"
        and input = "JObj []" and ?n2.0 = Undefined]
  note t3 = default_namespace_by_handler [OF b(1),
      where k = pickyCluster and ns = "''default''" and stringify = sampleStringify
        and podName = "JStr ''coredns-1''" and pod = "JObj [(''pod'', JStr ''coredns-1'')]"
        and t = "''[object Object]''"]
  have r1: "toolsCall pickyCluster ''default'' sampleStringify
              (callRequest (JStr ''list-pods'') Undefined) =
            Inr (errorResult ''Error: Failed to list pods: Forbidden'')"
    "listPodsTool pickyCluster sampleStringify (JObj [(''namespace'', JStr ''default'')]) =
            Inr (errorResult ''Error listing pods: Forbidden'')"
    using t1 c e by simp_all
  have r2: "toolsCall pickyCluster ''default'' sampleStringify
              (callRequest (JStr ''list-pods'') podArgs) = Inr (textResult ''[object Object]'')"
    "listPodsTool pickyCluster sampleStringify (JObj []) = Inr (textResult ''[object Object]'')"
    using t2 c d e by simp_all
  have r3: "toolsCall pickyCluster ''default'' sampleStringify
              (callRequest (JStr ''get-pod'') podArgs) = Inr (textResult ''[object Object]'')"
    using t3 b c d by simp
  show ?thesis
    using a b c d e r1 r2 r3 by simp
qed

end
